theory Spec2Isabelle
  imports Main "HOL-Library.Word" "HOL-Library.AList"
begin

section \<open>Binary payload decoder (src/utils/PriceDataParser.jsx)\<close>

text \<open>
  The decoder reads a \<open>Buffer\<close> (a byte array) that comes out of
  \<open>Buffer.from(data[0], 'base64')\<close>. The \<open>buffer\<close> package is not part of the
  repository: its base64 decoder is a parameter \<open>dec\<close> of \<open>parseData\<close> (it either
  raises or yields a byte list), and its two 32-bit reads are written out below with
  their documented range check (a read that does not fit raises \<open>RangeError\<close>).
\<close>

type_synonym byte = "8 word"

datatype js_error = RangeError | TypeError | SyntaxError | OtherError

definition Buffer_readUInt32LE :: "byte list \<Rightarrow> nat \<Rightarrow> js_error + int" where
  "Buffer_readUInt32LE buf off =
     (if length buf < off + 4 then Inl RangeError
      else Inr (uint (buf ! off) + uint (buf ! (off + 1)) * 2 ^ 8
                + uint (buf ! (off + 2)) * 2 ^ 16 + uint (buf ! (off + 3)) * 2 ^ 24))"

definition Buffer_readInt32LE :: "byte list \<Rightarrow> nat \<Rightarrow> js_error + int" where
  "Buffer_readInt32LE buf off =
     (case Buffer_readUInt32LE buf off of
        Inl e \<Rightarrow> Inl e
      | Inr u \<Rightarrow> Inr (if 2 ^ 31 \<le> u then u - 2 ^ 32 else u))"

text \<open>
  \<open>readBigInt64LE\<close>: two 32-bit reads, combined as BigInts (unbounded integers):
  \<open>BigInt(high) * BigInt(4294967296) + BigInt(low)\<close>. The low read comes first, as in
  the source, so its exception wins.
\<close>

definition readBigInt64LE :: "byte list \<Rightarrow> nat \<Rightarrow> js_error + int" where
  "readBigInt64LE buffer offset =
     (case Buffer_readUInt32LE buffer offset of
        Inl e \<Rightarrow> Inl e
      | Inr low \<Rightarrow>
         (case Buffer_readInt32LE buffer (offset + 4) of
            Inl e \<Rightarrow> Inl e
          | Inr high \<Rightarrow> Inr (high * 4294967296 + low)))"

definition readInt32LE :: "byte list \<Rightarrow> nat \<Rightarrow> js_error + int" where
  "readInt32LE buffer offset = Buffer_readInt32LE buffer offset"

text \<open>
  \<open>Number(bigint)\<close> converts to the nearest float64, ties to even. A float64 has a
  53-bit significand, so an integer of at most 53 bits converts exactly and a longer one
  is rounded to a multiple of \<open>2 ^ (bits - 53)\<close>. The result is again an integer, so
  the model stays in \<open>int\<close>. (BigInts of this program are below \<open>2 ^ 63\<close> in
  magnitude, far from the float64 overflow threshold.)
\<close>

function bit_length :: "int \<Rightarrow> nat" where
  "bit_length a = (if a \<le> 0 then 0 else Suc (bit_length (a div 2)))"
  by pat_completeness auto
termination
  by (relation "measure nat") auto

declare bit_length.simps [simp del]

definition Number_of_BigInt :: "int \<Rightarrow> int" where
  "Number_of_BigInt x =
     (let a = \<bar>x\<bar>; bits = bit_length a in
      if bits \<le> 53 then x
      else
        let ulp = 2 ^ (bits - 53); q = a div ulp; r = a mod ulp;
            q' = (if 2 * r < ulp then q
                  else if ulp < 2 * r then q + 1
                  else if even q then q else q + 1)
        in sgn x * (q' * ulp))"

text \<open>
  The two float64 products \<open>Number(price) * Math.pow(10, exponent)\<close> are kept
  symbolic: \<open>FMulPow10 m e\<close> stands for the float64 product of the Number \<open>m\<close> and
  \<open>Math.pow(10, e)\<close>. Floating-point rounding of that product is not modelled.
\<close>

datatype f64 = FMulPow10 int int

record reading =
  price :: f64
  confidence :: f64
  exponent :: int
  rawPrice :: int
  rawConfidence :: int
  timestamp :: int
  raw :: string

text \<open>
  The body of the \<open>try\<close> block of \<open>parseData\<close>. \<open>data\<close> is \<open>None\<close> when the
  argument is absent (\<open>null\<close>, \<open>undefined\<close>); \<open>data[0]\<close> of an empty array is
  \<open>undefined\<close> and the empty string is falsy, so both return \<open>null\<close> (here
  \<open>Inr None\<close>). \<open>now\<close> is the value of \<open>Date.now()\<close>.
\<close>

definition parseData_try ::
  "(string \<Rightarrow> js_error + byte list) \<Rightarrow> int \<Rightarrow> string list option \<Rightarrow> js_error + reading option" where
  "parseData_try dec now data =
     (case data of
        None \<Rightarrow> Inr None
      | Some [] \<Rightarrow> Inr None
      | Some (d0 # _) \<Rightarrow>
          if d0 = [] then Inr None
          else
            (case dec d0 of
               Inl e \<Rightarrow> Inl e
             | Inr binaryData \<Rightarrow>
                (case readBigInt64LE binaryData 8 of
                   Inl e \<Rightarrow> Inl e
                 | Inr p \<Rightarrow>
                    (case readBigInt64LE binaryData 16 of
                       Inl e \<Rightarrow> Inl e
                     | Inr c \<Rightarrow>
                        (case readInt32LE binaryData 24 of
                           Inl e \<Rightarrow> Inl e
                         | Inr ex \<Rightarrow>
                            Inr (Some \<lparr>price = FMulPow10 (Number_of_BigInt p) ex,
                                       confidence = FMulPow10 (Number_of_BigInt c) ex,
                                       exponent = ex,
                                       rawPrice = Number_of_BigInt p,
                                       rawConfidence = Number_of_BigInt c,
                                       timestamp = now,
                                       raw = d0\<rparr>))))))"

text \<open>
  \<open>parseData\<close>: the \<open>catch\<close> clause logs the exception and returns \<open>null\<close>. The
  result is \<open>Inl e\<close> only if an exception leaves the function, \<open>Inr None\<close> is
  \<open>null\<close>.
\<close>

definition parseData ::
  "(string \<Rightarrow> js_error + byte list) \<Rightarrow> int \<Rightarrow> string list option \<Rightarrow> js_error + reading option" where
  "parseData dec now data =
     (case parseData_try dec now data of
        Inl e \<Rightarrow> Inr None
      | Inr r \<Rightarrow> Inr r)"

text \<open>
  The little-endian layout the decoder expects, written as an encoder: eight bytes of a
  64-bit value, four bytes of a 32-bit value, least significant byte first.
\<close>

definition le_bytes :: "nat \<Rightarrow> int \<Rightarrow> byte list" where
  "le_bytes n v = map (\<lambda>i. word_of_int (v div 2 ^ (8 * i))) [0..<n]"

definition le64 :: "64 word \<Rightarrow> byte list" where
  "le64 w = le_bytes 8 (uint w)"

definition le32 :: "32 word \<Rightarrow> byte list" where
  "le32 w = le_bytes 4 (uint w)"

definition encode :: "byte list \<Rightarrow> 64 word \<Rightarrow> 64 word \<Rightarrow> 32 word \<Rightarrow> byte list \<Rightarrow> byte list" where
  "encode header p c e rest = header @ le64 p @ le64 c @ le32 e @ rest"

text \<open>A decoder that yields one fixed buffer, for concrete inputs.\<close>

definition const_decoder :: "byte list \<Rightarrow> string \<Rightarrow> js_error + byte list" where
  "const_decoder buf s = Inr buf"

text \<open>
  \<open>Buffer.from(str, 'base64')\<close> as the \<open>buffer\<close> package computes it on a string.
  It never raises: the text is cut at the first \<open>=\<close>, every character outside the
  base64 alphabets (\<open>A-Z a-z 0-9 + /\<close> and the URL-safe \<open>- _\<close>) is dropped, what is
  left is taken as empty when it has fewer than two characters, and then four
  characters give three bytes, a remainder of three gives two bytes, of two gives one
  byte and a remainder of one gives none.
\<close>

definition b64_valid :: "char \<Rightarrow> bool" where
  "b64_valid c =
     (let n = (of_char c :: nat) in
      (65 \<le> n \<and> n \<le> 90) \<or> (97 \<le> n \<and> n \<le> 122) \<or> (48 \<le> n \<and> n \<le> 57)
      \<or> n = 43 \<or> n = 47 \<or> n = 45 \<or> n = 95)"

definition revLookup :: "char \<Rightarrow> nat" where
  "revLookup c =
     (let n = (of_char c :: nat) in
      if 65 \<le> n \<and> n \<le> 90 then n - 65
      else if 97 \<le> n \<and> n \<le> 122 then n - 71
      else if 48 \<le> n \<and> n \<le> 57 then n + 4
      else if n = 43 \<or> n = 45 then 62
      else if n = 47 \<or> n = 95 then 63
      else 0)"

definition base64clean :: "string \<Rightarrow> string" where
  "base64clean str =
     (let s = filter b64_valid (takeWhile (\<lambda>c. c \<noteq> CHR ''='') str)
      in if length s < 2 then [] else s)"

fun toByteArray :: "nat list \<Rightarrow> byte list" where
  "toByteArray (a # b # c # d # rest) =
     of_nat (a * 4 + b div 16) # of_nat ((b mod 16) * 16 + c div 4)
       # of_nat ((c mod 4) * 64 + d) # toByteArray rest"
| "toByteArray [a, b, c] = [of_nat (a * 4 + b div 16), of_nat ((b mod 16) * 16 + c div 4)]"
| "toByteArray [a, b] = [of_nat (a * 4 + b div 16)]"
| "toByteArray rest = []"

definition Buffer_from_base64 :: "string \<Rightarrow> js_error + byte list" where
  "Buffer_from_base64 str = Inr (toByteArray (map revLookup (base64clean str)))"

section \<open>JavaScript values\<close>

text \<open>
  The values \<open>JSON.parse\<close> can return, and \<open>undefined\<close> for a missing property.
  Numbers are the integers: request ids and subscription ids are integers, and no claim
  depends on a fractional number.
\<close>

datatype jsval =
    JUndefined
  | JNull
  | JBool bool
  | JNum int
  | JStr string
  | JArr "jsval list"
  | JObj "(string \<times> jsval) list"

text \<open>Truthiness, as \<open>if (v)\<close>, \<open>!v\<close> and \<open>a && b\<close> test it.\<close>

fun truthy :: "jsval \<Rightarrow> bool" where
  "truthy JUndefined = False"
| "truthy JNull = False"
| "truthy (JBool b) = b"
| "truthy (JNum n) = (n \<noteq> 0)"
| "truthy (JStr s) = (s \<noteq> [])"
| "truthy (JArr xs) = True"
| "truthy (JObj kvs) = True"

text \<open>
  The property read \<open>v.k\<close> for the names the program reads (\<open>id\<close>, \<open>result\<close>):
  a TypeError on \<open>null\<close> and \<open>undefined\<close>, the stored value on an object that
  has the key, \<open>undefined\<close> otherwise.
\<close>

fun get_prop :: "jsval \<Rightarrow> string \<Rightarrow> js_error + jsval" where
  "get_prop JUndefined k = Inl TypeError"
| "get_prop JNull k = Inl TypeError"
| "get_prop (JObj kvs) k = Inr (case map_of kvs k of None \<Rightarrow> JUndefined | Some v \<Rightarrow> v)"
| "get_prop v k = Inr JUndefined"

section \<open>WebSocketManager (the class after the chart component in src/components/PriceChart.jsx)\<close>

type_synonym address = string

text \<open>A registry entry \<open>{ params, pendingId, id }\<close>; \<open>None\<close> is \<open>null\<close>.\<close>

record subscription =
  params :: jsval
  pendingId :: "nat option"
  id' :: jsval

text \<open>
  A registered handler: \<open>hid\<close> is the identity of the function object, \<open>throws m\<close>
  tells whether its call on \<open>m\<close> raises, and \<open>removes m\<close> lists the handlers (by
  identity, its own possibly among them) whose de-registration function it calls while
  it handles \<open>m\<close>. A handler makes no other call into the manager.
\<close>

record handler =
  hid :: nat
  throws :: "jsval \<Rightarrow> bool"
  removes :: "jsval \<Rightarrow> nat list"

record options =
  reconnectInterval :: nat
  maxReconnectAttempts :: nat

text \<open>
  The fields of the class, then the effects on the outside: \<open>sockets\<close> counts the
  WebSocket objects constructed (so \<open>ws\<close> holds the number of the current one),
  \<open>closeCalls\<close> lists the sockets \<open>close()\<close> was called on, \<open>sent\<close> the frames
  passed to \<open>ws.send\<close> (before \<open>JSON.stringify\<close>), \<open>timers\<close> the delays of the
  pending \<open>setTimeout(() => this.connect(), delay)\<close> calls, \<open>calls\<close> the handler
  invocations, \<open>log\<close> the console output, and \<open>waiting\<close> the \<open>subscribe\<close>
  calls suspended at \<open>await this.connect()\<close> on the promise of the connection
  attempt in flight, in the order in which they were made. The registry is a JavaScript
  \<open>Map\<close>: an association list in insertion order.
\<close>

record manager =
  url :: string
  opts :: options
  ws :: "nat option"
  reconnectAttempts :: nat
  subscriptions :: "(address \<times> subscription) list"
  isConnected :: bool
  connectionPromise :: bool
  messageHandlers :: "handler list"
  lastMessageId :: nat
  sockets :: nat
  closeCalls :: "nat list"
  sent :: "jsval list"
  timers :: "nat list"
  calls :: "(nat \<times> jsval) list"
  log :: "string list"
  waiting :: "(address \<times> jsval) list"

text \<open>
  The constructor: \<open>{ reconnectInterval: 2000, maxReconnectAttempts: 5, ...options }\<close>.
  An option the caller leaves out (\<open>None\<close>) keeps its default.
\<close>

definition default_options :: options where
  "default_options = \<lparr>reconnectInterval = 2000, maxReconnectAttempts = 5\<rparr>"

definition constructor :: "string \<Rightarrow> nat option \<Rightarrow> nat option \<Rightarrow> manager" where
  "constructor u interval attempts =
     \<lparr>url = u,
      opts = \<lparr>reconnectInterval =
                (case interval of None \<Rightarrow> reconnectInterval default_options | Some v \<Rightarrow> v),
              maxReconnectAttempts =
                (case attempts of None \<Rightarrow> maxReconnectAttempts default_options | Some v \<Rightarrow> v)\<rparr>,
      ws = None, reconnectAttempts = 0, subscriptions = [],
      isConnected = False, connectionPromise = False, messageHandlers = [],
      lastMessageId = 0, sockets = 0, closeCalls = [], sent = [], timers = [],
      calls = [], log = [], waiting = []\<rparr>"

text \<open>
  \<open>connect()\<close>: nothing when connected or when an attempt is in flight; otherwise a
  new socket and a new promise. (\<open>new WebSocket(url)\<close> is taken not to raise.)
\<close>

definition connect :: "manager \<Rightarrow> manager" where
  "connect s =
     (if isConnected s then s
      else if connectionPromise s then s
      else s\<lparr>ws := Some (sockets s), sockets := sockets s + 1, connectionPromise := True\<rparr>)"

definition subscribe_msg :: "nat \<Rightarrow> address \<Rightarrow> jsval \<Rightarrow> jsval" where
  "subscribe_msg n address ps =
     JObj [(''jsonrpc'', JStr ''2.0''), (''id'', JNum (int n)),
           (''method'', JStr ''accountSubscribe''), (''params'', JArr [JStr address, ps])]"

definition unsubscribe_msg :: "nat \<Rightarrow> jsval \<Rightarrow> jsval" where
  "unsubscribe_msg n sid =
     JObj [(''jsonrpc'', JStr ''2.0''), (''id'', JNum (int n)),
           (''method'', JStr ''accountUnsubscribe''), (''params'', JArr [sid])]"

text \<open>
  \<open>subscribe(address, params)\<close> from the point where \<open>await this.connect()\<close> has
  resolved, up to \<open>ws.send\<close>: it runs in one turn, on a connected manager.
  \<open>Map.set\<close> keeps the position of a key that is present and appends a new one, as
  \<open>AList.update\<close> does.
\<close>

definition subscribe :: "address \<Rightarrow> jsval \<Rightarrow> manager \<Rightarrow> manager" where
  "subscribe address ps s =
     (let n = lastMessageId s + 1 in
      s\<lparr>lastMessageId := n,
        subscriptions :=
          AList.update address \<lparr>params = ps, pendingId = Some n, id' = JNull\<rparr> (subscriptions s),
        sent := sent s @ [subscribe_msg n address ps]\<rparr>)"

text \<open>
  The promise \<open>subscribe\<close> returns polls the registry every 100 time units:
  \<open>Some v\<close> when the poll resolves with \<open>v\<close>, \<open>None\<close> when it keeps polling.
\<close>

definition checkSubscription :: "address \<Rightarrow> manager \<Rightarrow> jsval option" where
  "checkSubscription address s =
     (case map_of (subscriptions s) address of
        None \<Rightarrow> None
      | Some sub \<Rightarrow> if truthy (id' sub) then Some (id' sub) else None)"

text \<open>An entry object as a value: what \<open>JSON.stringify\<close> sees when it is passed on.\<close>

definition entry_val :: "subscription \<Rightarrow> jsval" where
  "entry_val e =
     JObj [(''params'', params e),
           (''pendingId'', (case pendingId e of None \<Rightarrow> JNull | Some n \<Rightarrow> JNum (int n))),
           (''id'', id' e)]"

text \<open>
  \<open>ws.onopen\<close>. \<open>resolve()\<close> comes before the resubscribe loop, so the
  \<open>subscribe\<close> calls that were waiting for the connection are the first to resume
  when the handler returns, in the order in which they were made. The callback of
  \<open>this.subscriptions.forEach\<close> receives the map's value first and its key second:
  the value is the whole entry object, and that is what the source passes to
  \<open>subscribe\<close> under the name \<open>params\<close>. The loop runs inside the handler, over
  the registry as it is then; the calls it makes resume after the waiting ones, in
  order, each with the entry object it was given.
\<close>

definition ws_onopen :: "manager \<Rightarrow> manager" where
  "ws_onopen s =
     (let s1 = s\<lparr>isConnected := True, reconnectAttempts := 0,
                 log := log s @ [''WebSocket connection established'']\<rparr>;
          entries = subscriptions s1;
          s2 = fold (\<lambda>(address, ps) st. subscribe address ps st) (waiting s1)
                    (s1\<lparr>waiting := []\<rparr>)
      in fold (\<lambda>(address, entry) st. subscribe address (entry_val entry) st) entries s2)"

text \<open>\<open>sub.pendingId === message.id\<close>: \<open>pendingId\<close> is a number or \<open>null\<close>.\<close>

definition pending_matches :: "nat option \<Rightarrow> jsval \<Rightarrow> bool" where
  "pending_matches p v = (case p of None \<Rightarrow> v = JNull | Some n \<Rightarrow> v = JNum (int n))"

text \<open>
  \<open>Array.from(this.subscriptions.values()).find(...)\<close> and the update of the entry
  found: the first entry in insertion order whose pending id matches.
\<close>

fun confirm :: "jsval \<Rightarrow> jsval \<Rightarrow> (address \<times> subscription) list \<Rightarrow> (address \<times> subscription) list" where
  "confirm mid res [] = []"
| "confirm mid res ((a, e) # rest) =
     (if pending_matches (pendingId e) mid
      then (a, e\<lparr>pendingId := None, id' := res\<rparr>) # rest
      else (a, e) # confirm mid res rest)"

text \<open>
  The correlation step \<open>if (message.id && message.result) { ... }\<close>. Reading a
  property of \<open>null\<close> raises; \<open>&&\<close> reads \<open>result\<close> only when \<open>id\<close> is truthy.
\<close>

definition correlate :: "jsval \<Rightarrow> manager \<Rightarrow> js_error + manager" where
  "correlate message s =
     (case get_prop message ''id'' of
        Inl e \<Rightarrow> Inl e
      | Inr mid \<Rightarrow>
          if truthy mid then
            (case get_prop message ''result'' of
               Inl e \<Rightarrow> Inl e
             | Inr res \<Rightarrow>
                 if truthy res
                 then Inr (s\<lparr>subscriptions := confirm mid res (subscriptions s)\<rparr>)
                 else Inr s)
          else Inr s)"

text \<open>
  \<open>this.messageHandlers.forEach\<close> with its inner \<open>try\<close>/\<open>catch\<close>: a handler
  that raises is logged and the loop goes on.
\<close>

definition call_handler :: "handler \<Rightarrow> jsval \<Rightarrow> js_error option" where
  "call_handler h message = (if throws h message then Some OtherError else None)"

text \<open>
  The de-registration function \<open>onMessage\<close> returns: \<open>indexOf\<close> and \<open>splice\<close> take out the first
  occurrence of the handler.
\<close>

fun remove_first :: "nat \<Rightarrow> handler list \<Rightarrow> handler list" where
  "remove_first i [] = []"
| "remove_first i (h # hs) = (if hid h = i then hs else h # remove_first i hs)"

definition remove_by_id :: "nat \<Rightarrow> manager \<Rightarrow> manager" where
  "remove_by_id i s = s\<lparr>messageHandlers := remove_first i (messageHandlers s)\<rparr>"

definition notify :: "jsval \<Rightarrow> handler \<Rightarrow> manager \<Rightarrow> manager" where
  "notify message h s =
     (let s1 = s\<lparr>calls := calls s @ [(hid h, message)]\<rparr>;
          s2 = fold remove_by_id (removes h message) s1
      in case call_handler h message of
           None \<Rightarrow> s2
         | Some e \<Rightarrow> s2\<lparr>log := log s2 @ [''Error in message handler:'']\<rparr>)"

text \<open>
  \<open>Array.prototype.forEach\<close> on \<open>this.messageHandlers\<close>: the number of rounds is
  the length of the array when the loop starts, and round \<open>k\<close> calls the element that
  is at index \<open>k\<close> of the array as it is at that moment, if there is one. A handler
  taken out by \<open>splice\<close> during the loop moves the later ones down by one index.
\<close>

function forEach_handlers :: "jsval \<Rightarrow> nat \<Rightarrow> nat \<Rightarrow> manager \<Rightarrow> manager" where
  "forEach_handlers message k len s =
     (if k < len then
        (if k < length (messageHandlers s)
         then forEach_handlers message (k + 1) len (notify message (messageHandlers s ! k) s)
         else forEach_handlers message (k + 1) len s)
      else s)"
  by pat_completeness auto
termination
  by (relation "measure (\<lambda>(message, k, len, s). len - k)") auto

declare forEach_handlers.simps [simp del]

definition dispatch :: "jsval \<Rightarrow> manager \<Rightarrow> manager" where
  "dispatch message s = forEach_handlers message 0 (length (messageHandlers s)) s"

text \<open>
  \<open>ws.onmessage\<close>. The argument is the outcome of \<open>JSON.parse(event.data)\<close>. Any
  exception of the outer \<open>try\<close> block ends the handler with a log line.
\<close>

definition ws_onmessage :: "js_error + jsval \<Rightarrow> manager \<Rightarrow> manager" where
  "ws_onmessage parsed s =
     (case parsed of
        Inl e \<Rightarrow> s\<lparr>log := log s @ [''Error parsing WebSocket message:'']\<rparr>
      | Inr message \<Rightarrow>
         (case correlate message s of
            Inl e \<Rightarrow> s\<lparr>log := log s @ [''Error parsing WebSocket message:'']\<rparr>
          | Inr s1 \<Rightarrow> dispatch message s1))"

text \<open>
  \<open>ws.onerror\<close>: before the connection is up it rejects the promise, and the
  \<open>subscribe\<close> calls that wait on it end with that exception.
\<close>

definition ws_onerror :: "manager \<Rightarrow> manager" where
  "ws_onerror s =
     (let s1 = s\<lparr>log := log s @ [''WebSocket error:'']\<rparr>
      in if \<not> isConnected s1 then s1\<lparr>waiting := []\<rparr> else s1)"

text \<open>
  \<open>ws.onclose\<close>. The promise of the attempt is dropped and its socket is closed, so
  a call still waiting on it never resumes.
\<close>

definition ws_onclose :: "manager \<Rightarrow> manager" where
  "ws_onclose s =
     (let s1 = s\<lparr>isConnected := False, connectionPromise := False,
                 log := log s @ [''WebSocket connection closed''], waiting := []\<rparr>
      in if reconnectAttempts s1 < maxReconnectAttempts (opts s1)
         then s1\<lparr>reconnectAttempts := reconnectAttempts s1 + 1,
                 log := log s1 @ [''Reconnecting...''],
                 timers := timers s1 @ [reconnectInterval (opts s1)]\<rparr>
         else s1\<lparr>log := log s1 @ [''Max reconnection attempts reached'']\<rparr>)"

text \<open>The callback of the oldest pending reconnect timer: \<open>this.connect()\<close>.\<close>

definition timer_fires :: "manager \<Rightarrow> manager" where
  "timer_fires s = (case timers s of [] \<Rightarrow> s | d # ds \<Rightarrow> connect (s\<lparr>timers := ds\<rparr>))"

definition unsubscribe :: "address \<Rightarrow> manager \<Rightarrow> manager" where
  "unsubscribe address s =
     (if \<not> isConnected s then s
      else case map_of (subscriptions s) address of
        None \<Rightarrow> s
      | Some sub \<Rightarrow>
          if \<not> truthy (id' sub) then s
          else
            (let n = lastMessageId s + 1 in
             s\<lparr>lastMessageId := n,
               sent := sent s @ [unsubscribe_msg n (id' sub)],
               subscriptions := AList.delete address (subscriptions s)\<rparr>))"

definition onMessage :: "handler \<Rightarrow> manager \<Rightarrow> manager" where
  "onMessage h s = s\<lparr>messageHandlers := messageHandlers s @ [h]\<rparr>"

text \<open>The function \<open>onMessage\<close> returns, called from outside a dispatch.\<close>

definition removeHandler :: "handler \<Rightarrow> manager \<Rightarrow> manager" where
  "removeHandler h s = remove_by_id (hid h) s"

text \<open>
  \<open>disconnect()\<close>. After \<open>ws.close()\<close> the socket cannot open any more and the
  promise of its attempt is dropped, so a call still waiting on it never resumes.
\<close>

definition disconnect :: "manager \<Rightarrow> manager" where
  "disconnect s =
     (case ws s of
        None \<Rightarrow> s
      | Some k \<Rightarrow> s\<lparr>closeCalls := closeCalls s @ [k], isConnected := False,
                     connectionPromise := False, subscriptions := [], waiting := []\<rparr>)"

definition getStatus :: "manager \<Rightarrow> bool" where
  "getStatus s = isConnected s"

text \<open>
  What can happen to a manager, one turn of the event loop each. \<open>Open\<close>,
  \<open>Message\<close>, \<open>Error\<close> and \<open>Close\<close> are the events of the current socket.
  \<open>Subscribe\<close> is a call of \<open>subscribe\<close>: on a connected manager
  \<open>await this.connect()\<close> resolves at once and the rest runs in the same turn; on a
  manager that is not connected the call starts a connection (or joins the attempt in
  flight) and waits for it.
\<close>

datatype event =
    Connect
  | Open
  | Message "js_error + jsval"
  | Error
  | Close
  | TimerFires
  | Subscribe address jsval
  | Unsubscribe address
  | OnMessage handler
  | RemoveHandler handler
  | Disconnect

fun step :: "event \<Rightarrow> manager \<Rightarrow> manager" where
  "step Connect s = connect s"
| "step Open s = ws_onopen s"
| "step (Message parsed) s = ws_onmessage parsed s"
| "step Error s = ws_onerror s"
| "step Close s = ws_onclose s"
| "step TimerFires s = timer_fires s"
| "step (Subscribe a ps) s =
     (if isConnected s then subscribe a ps s
      else (connect s)\<lparr>waiting := waiting s @ [(a, ps)]\<rparr>)"
| "step (Unsubscribe a) s = unsubscribe a s"
| "step (OnMessage h) s = onMessage h s"
| "step (RemoveHandler h) s = removeHandler h s"
| "step Disconnect s = disconnect s"

definition run :: "event list \<Rightarrow> manager \<Rightarrow> manager" where
  "run evs s = fold step evs s"

text \<open>
  The registry invariant: one entry per address, pending ids among the request ids
  handed out so far, and a confirmed id that is \<open>null\<close> or truthy.
\<close>

definition entry_ok :: "nat \<Rightarrow> subscription \<Rightarrow> bool" where
  "entry_ok n e =
     ((case pendingId e of None \<Rightarrow> True | Some k \<Rightarrow> k \<le> n)
      \<and> (id' e = JNull \<or> truthy (id' e)))"

definition registry_ok :: "manager \<Rightarrow> bool" where
  "registry_ok s =
     (distinct (map fst (subscriptions s)) \<and>
      list_all (\<lambda>(a, e). entry_ok (lastMessageId s) e) (subscriptions s))"

text \<open>The default parameters of \<open>subscribe\<close> and an acknowledgment frame.\<close>

definition default_params :: jsval where
  "default_params = JObj [(''encoding'', JStr ''jsonParsed''), (''commitment'', JStr ''confirmed'')]"

definition ack :: "jsval \<Rightarrow> jsval \<Rightarrow> jsval" where
  "ack i r = JObj [(''jsonrpc'', JStr ''2.0''), (''id'', i), (''result'', r)]"

text \<open>A manager made with no options, so with the defaults.\<close>

definition fresh :: manager where
  "fresh = constructor ''wss://devnet.magicblock.app'' None None"

text \<open>
  A field of a message as the correlation step sees it: a value that has no fields
  (\<open>null\<close>) has no \<open>id\<close> and no \<open>result\<close>.
\<close>

definition field :: "jsval \<Rightarrow> string \<Rightarrow> jsval" where
  "field m k = (case get_prop m k of Inl e \<Rightarrow> JUndefined | Inr v \<Rightarrow> v)"




section \<open>Update throttle (handlePriceUpdate and updatePrice in src/App.jsx)\<close>

definition MAX_HISTORY_POINTS :: nat where
  "MAX_HISTORY_POINTS = 100"

definition UPDATE_LIMIT_MS :: int where
  "UPDATE_LIMIT_MS = 50"

text \<open>
  The refs and state the two callbacks touch, for readings of any type \<open>'r\<close>.
  \<open>pendingUpdate\<close> is \<open>pendingUpdateRef.current\<close>: a timer id or \<open>null\<close>.
  \<open>timeouts\<close> is the environment's list of live timers (id, due time, the reading
  its callback closes over) and \<open>nextTimer\<close> the next id \<open>setTimeout\<close> returns
  (ids start at 1, so an id is truthy). \<open>deliveries\<close> records each call of
  \<open>updatePrice\<close> with the time at which it ran.
\<close>

record 'r throttle =
  lastUpdateTime :: int
  pendingUpdate :: "nat option"
  timeouts :: "(nat \<times> int \<times> 'r) list"
  nextTimer :: nat
  priceData :: "'r option"
  priceHistory :: "'r list"
  updateCounter :: nat
  updateCount :: nat
  deliveries :: "(int \<times> 'r) list"

text \<open>The component at mount time \<open>t0\<close>: \<open>lastUpdateTimeRef = useRef(Date.now())\<close>.\<close>

definition mounted :: "int \<Rightarrow> 'r throttle" where
  "mounted t0 =
     \<lparr>lastUpdateTime = t0, pendingUpdate = None, timeouts = [], nextTimer = 1,
      priceData = None, priceHistory = [], updateCounter = 0, updateCount = 0,
      deliveries = []\<rparr>"

text \<open>\<open>updatePrice(parsedData)\<close>, run at time \<open>now\<close>.\<close>

definition updatePrice :: "int \<Rightarrow> 'r \<Rightarrow> 'r throttle \<Rightarrow> 'r throttle" where
  "updatePrice now parsedData s =
     (let newHistory = priceHistory s @ [parsedData] in
      s\<lparr>priceData := Some parsedData,
        priceHistory :=
          (if MAX_HISTORY_POINTS < length newHistory
           then drop (length newHistory - MAX_HISTORY_POINTS) newHistory
           else newHistory),
        updateCounter := updateCounter s + 1,
        updateCount := updateCount s + 1,
        lastUpdateTime := now,
        deliveries := deliveries s @ [(now, parsedData)]\<rparr>)"

text \<open>\<open>clearTimeout(id)\<close>: nothing happens when the timer has fired already.\<close>

definition clearTimeout :: "nat \<Rightarrow> 'r throttle \<Rightarrow> 'r throttle" where
  "clearTimeout i s = s\<lparr>timeouts := filter (\<lambda>(j, due, r). j \<noteq> i) (timeouts s)\<rparr>"

text \<open>
  \<open>handlePriceUpdate\<close> for an \<open>accountNotification\<close>, run at time \<open>now\<close>;
  \<open>parsedData\<close> is what \<open>PriceDataParser.parseData\<close> returned (\<open>None\<close> is
  \<open>null\<close>).
\<close>

definition handlePriceUpdate :: "int \<Rightarrow> 'r option \<Rightarrow> 'r throttle \<Rightarrow> 'r throttle" where
  "handlePriceUpdate now parsed s =
     (case parsed of
        None \<Rightarrow> s
      | Some parsedData \<Rightarrow>
          (let timeSinceLastUpdate = now - lastUpdateTime s;
               s1 = (case pendingUpdate s of None \<Rightarrow> s | Some i \<Rightarrow> clearTimeout i s)
           in if timeSinceLastUpdate < UPDATE_LIMIT_MS
              then s1\<lparr>pendingUpdate := Some (nextTimer s1),
                      timeouts := timeouts s1 @
                        [(nextTimer s1, now + (UPDATE_LIMIT_MS - timeSinceLastUpdate), parsedData)],
                      nextTimer := nextTimer s1 + 1\<rparr>
              else updatePrice now parsedData s1))"

text \<open>
  The event loop up to time \<open>t\<close>: every live timer due by then fires, earliest first,
  at its due time. A timer callback is \<open>updatePrice\<close> and sets no timer.
\<close>

definition advance :: "int \<Rightarrow> 'r throttle \<Rightarrow> 'r throttle" where
  "advance t s =
     fold (\<lambda>(i, due, r) st. updatePrice due r st)
          (sort_key (\<lambda>(i, due, r). due) (filter (\<lambda>(i, due, r). due \<le> t) (timeouts s)))
          (s\<lparr>timeouts := filter (\<lambda>(i, due, r). \<not> due \<le> t) (timeouts s)\<rparr>)"

text \<open>
  Readings arriving at the given times (in time order), then the loop running on to
  time \<open>t_end\<close>.
\<close>

definition arrive :: "int \<times> 'r \<Rightarrow> 'r throttle \<Rightarrow> 'r throttle" where
  "arrive a s = handlePriceUpdate (fst a) (Some (snd a)) (advance (fst a) s)"

definition simulate :: "(int \<times> 'r) list \<Rightarrow> int \<Rightarrow> 'r throttle \<Rightarrow> 'r throttle" where
  "simulate arrivals t_end s = advance t_end (fold arrive arrivals s)"

section \<open>Properties of the decoder\<close>

subsection \<open>Little-endian reads\<close>

lemma length_le_bytes: "length (le_bytes n v) = n"
  by (simp add: le_bytes_def)

lemma le_bytes_4:
  "le_bytes 4 v = [word_of_int v, word_of_int (v div 256), word_of_int (v div 65536),
                   word_of_int (v div 16777216)]"
  by (simp add: le_bytes_def upt_rec numeral_eq_Suc)

lemma le_bytes_8: "le_bytes 8 v = le_bytes 4 v @ le_bytes 4 (v div 4294967296)"
proof -
  have d: "v div 4294967296 div 256 = v div 1099511627776"
      "v div 4294967296 div 65536 = v div 281474976710656"
      "v div 4294967296 div 16777216 = v div 72057594037927936"
    by (simp_all add: div_mult2_eq)
  have u: "[0..<8] = [0,1,2,3,4,5,6,7]" "[0..<4] = [0,1,2,3]"
    by (simp_all add: upt_rec)
  show ?thesis
    unfolding le_bytes_def u by (simp add: d)
qed

lemma uint_byte: "uint (word_of_int k :: byte) = k mod 256"
  by (simp add: uint_word_of_int)

lemma four_bytes_value:
  fixes u :: int
  assumes "0 \<le> u" "u < 4294967296"
  shows "u mod 256 + (u div 256) mod 256 * 256 + (u div 65536) mod 256 * 65536
         + (u div 16777216) mod 256 * 16777216 = u"
proof -
  have a: "u = u mod 256 + 256 * (u div 256)" by simp
  have "u div 256 div 256 = u div 65536" by (simp add: div_mult2_eq)
  then have b: "u div 256 = (u div 256) mod 256 + 256 * (u div 65536)"
    using mod_mult_div_eq[of "u div 256" 256] by simp
  have "u div 65536 div 256 = u div 16777216" by (simp add: div_mult2_eq)
  then have c: "u div 65536 = (u div 65536) mod 256 + 256 * (u div 16777216)"
    using mod_mult_div_eq[of "u div 65536" 256] by simp
  have "0 \<le> u div 16777216" "u div 16777216 < 256" using assms by simp_all
  then have d: "(u div 16777216) mod 256 = u div 16777216" by simp
  show ?thesis using a b c d by linarith
qed

lemma byte_of_low:
  "(u::int) mod 4294967296 div 256 mod 256 = u div 256 mod 256"
  "u mod 4294967296 div 65536 mod 256 = u div 65536 mod 256"
  "u mod 4294967296 div 16777216 mod 256 = u div 16777216 mod 256"
  "u mod 4294967296 mod 256 = u mod 256"
proof -
  have "take_bit 8 (drop_bit 8 (take_bit 32 u)) = take_bit 8 (drop_bit 8 u)"
    by (simp add: drop_bit_take_bit)
  then show "u mod 4294967296 div 256 mod 256 = u div 256 mod 256"
    by (simp only: take_bit_eq_mod drop_bit_eq_div) simp
  have "take_bit 8 (drop_bit 16 (take_bit 32 u)) = take_bit 8 (drop_bit 16 u)"
    by (simp add: drop_bit_take_bit)
  then show "u mod 4294967296 div 65536 mod 256 = u div 65536 mod 256"
    by (simp only: take_bit_eq_mod drop_bit_eq_div) simp
  have "take_bit 8 (drop_bit 24 (take_bit 32 u)) = take_bit 8 (drop_bit 24 u)"
    by (simp add: drop_bit_take_bit)
  then show "u mod 4294967296 div 16777216 mod 256 = u div 16777216 mod 256"
    by (simp only: take_bit_eq_mod drop_bit_eq_div) simp
  have "take_bit 8 (take_bit 32 u) = take_bit 8 u"
    by simp
  then show "u mod 4294967296 mod 256 = u mod 256"
    by (simp only: take_bit_eq_mod) simp
qed

lemma read_u32_bytes:
  "Buffer_readUInt32LE (pre @ le_bytes 4 u @ post) (length pre) =
     Inr (u mod 256 + (u div 256) mod 256 * 256 + (u div 65536) mod 256 * 65536
          + (u div 16777216) mod 256 * 16777216)"
proof -
  let ?b = "pre @ le_bytes 4 u @ post"
  have b0: "?b ! length pre = word_of_int u"
    by (simp add: nth_append le_bytes_4)
  have b1: "?b ! (length pre + 1) = word_of_int (u div 256)"
    by (simp add: nth_append le_bytes_4)
  have b2: "?b ! (length pre + 2) = word_of_int (u div 65536)"
    by (simp add: nth_append le_bytes_4)
  have b3: "?b ! (length pre + 3) = word_of_int (u div 16777216)"
    by (simp add: nth_append le_bytes_4)
  have l: "\<not> length ?b < length pre + 4" by (simp add: length_le_bytes)
  show ?thesis
    unfolding Buffer_readUInt32LE_def b0 b1 b2 b3 uint_byte if_not_P[OF l] by simp
qed

lemma read_u32_exact:
  assumes "0 \<le> u" "u < 4294967296"
  shows "Buffer_readUInt32LE (pre @ le_bytes 4 u @ post) (length pre) = Inr u"
  unfolding read_u32_bytes four_bytes_value[OF assms] ..

lemma read_u32_low:
  "Buffer_readUInt32LE (pre @ le_bytes 4 u @ post) (length pre) = Inr (u mod 4294967296)"
proof -
  have lo: "0 \<le> u mod 4294967296" "u mod 4294967296 < 4294967296" by simp_all
  show ?thesis
    unfolding read_u32_bytes using four_bytes_value[OF lo] by (simp only: byte_of_low)
qed

lemma signed_of_unsigned:
  fixes u :: int
  assumes "0 \<le> u" "u < 2 * m"
  shows "(u + m) mod (2 * m) - m = (if m \<le> u then u - 2 * m else u)"
proof (cases "m \<le> u")
  case True
  have "(u + m) mod (2 * m) = (u + m - 2 * m) mod (2 * m)"
    by (simp only: minus_mod_self2)
  also have "\<dots> = u + m - 2 * m"
    using True assms by (intro mod_pos_pos_trivial) simp_all
  finally show ?thesis using True by simp
next
  case False
  then have "(u + m) mod (2 * m) = u + m"
    using assms by (intro mod_pos_pos_trivial) simp_all
  then show ?thesis using False by simp
qed

lemma sint32_uint:
  "sint (w :: 32 word) = (if 2147483648 \<le> uint w then uint w - 4294967296 else uint w)"
proof -
  have "uint w < 2 ^ 32" "0 \<le> uint w" using uint_lt2p[of w] by simp_all
  then show ?thesis
    using signed_of_unsigned[of "uint w" "2^31"]
    by (simp add: sint_uint signed_take_bit_eq_take_bit_shift take_bit_eq_mod)
qed

lemma sint64_uint:
  "sint (w :: 64 word) =
     (if 9223372036854775808 \<le> uint w then uint w - 18446744073709551616 else uint w)"
proof -
  have "uint w < 2 ^ 64" "0 \<le> uint w" using uint_lt2p[of w] by simp_all
  then show ?thesis
    using signed_of_unsigned[of "uint w" "2^63"]
    by (simp add: sint_uint signed_take_bit_eq_take_bit_shift take_bit_eq_mod)
qed

lemma read_i32_le32: "Buffer_readInt32LE (pre @ le32 w @ post) (length pre) = Inr (sint w)"
proof -
  have "0 \<le> uint w" "uint w < 4294967296" using uint_lt2p[of w] by simp_all
  then have "Buffer_readUInt32LE (pre @ le32 w @ post) (length pre) = Inr (uint w)"
    unfolding le32_def by (rule read_u32_exact)
  then show ?thesis
    by (simp add: Buffer_readInt32LE_def sint32_uint)
qed

lemma high_low_value:
  fixes h l u :: int
  assumes l: "0 \<le> l" "l < 4294967296" and dm: "u = h * 4294967296 + l"
  shows "(if 2147483648 \<le> h then h - 4294967296 else h) * 4294967296 + l
         = (if 9223372036854775808 \<le> u then u - 18446744073709551616 else u)"
proof -
  have hb: "(2147483648 \<le> h) = (9223372036854775808 \<le> u)"
    using l dm by linarith
  show ?thesis
  proof (cases "2147483648 \<le> h")
    case True
    then have "9223372036854775808 \<le> u" using hb by simp
    then show ?thesis using True dm by (simp add: algebra_simps)
  next
    case False
    then have "\<not> 9223372036854775808 \<le> u" using hb by simp
    then show ?thesis using False dm by simp
  qed
qed

lemma read_i64_le64: "readBigInt64LE (pre @ le64 w @ post) (length pre) = Inr (sint w)"
proof -
  define h where "h = uint w div 4294967296"
  define l where "l = uint w mod 4294967296"
  have b: "0 \<le> uint w" "uint w < 18446744073709551616"
    using uint_lt2p[of w] by simp_all
  have l: "0 \<le> l" "l < 4294967296" by (simp_all add: l_def)
  have dm: "uint w = h * 4294967296 + l" by (simp add: h_def l_def)
  have hi: "0 \<le> h" "h < 4294967296"
    using b l dm by linarith+
  have low: "Buffer_readUInt32LE (pre @ le64 w @ post) (length pre) = Inr l"
    using read_u32_low[of pre "uint w" "le_bytes 4 (uint w div 4294967296) @ post"]
    by (simp add: le64_def le_bytes_8 l_def)
  have high: "Buffer_readUInt32LE (pre @ le64 w @ post) (length pre + 4) = Inr h"
    using read_u32_exact[OF hi, of "pre @ le_bytes 4 (uint w)" post]
    by (simp add: le64_def le_bytes_8 h_def length_le_bytes)
  have "Buffer_readInt32LE (pre @ le64 w @ post) (length pre + 4)
          = Inr (if 2147483648 \<le> h then h - 4294967296 else h)"
    by (simp add: Buffer_readInt32LE_def high)
  then have "readBigInt64LE (pre @ le64 w @ post) (length pre)
          = Inr ((if 2147483648 \<le> h then h - 4294967296 else h) * 4294967296 + l)"
    by (simp only: readBigInt64LE_def low sum.case)
  then show ?thesis
    by (simp only: high_low_value[OF l dm] sint64_uint)
qed

subsection \<open>Conversion to Number\<close>

lemma bit_length_le: "a < 2 ^ n \<Longrightarrow> bit_length a \<le> n"
proof (induction n arbitrary: a)
  case 0
  then show ?case by (simp add: bit_length.simps)
next
  case (Suc n)
  have "a div 2 < 2 ^ n" using Suc.prems by simp
  then have "bit_length (a div 2) \<le> n" by (rule Suc.IH)
  then show ?case by (subst bit_length.simps) simp
qed

lemma Number_of_BigInt_exact:
  assumes "\<bar>x\<bar> \<le> 2 ^ 53"
  shows "Number_of_BigInt x = x"
proof (cases "\<bar>x\<bar> < 2 ^ 53")
  case True
  then have "bit_length \<bar>x\<bar> \<le> 53" by (rule bit_length_le)
  then show ?thesis by (simp add: Number_of_BigInt_def Let_def)
next
  case False
  then have "x = 9007199254740992 \<or> x = - 9007199254740992" using assms by auto
  moreover have "Number_of_BigInt 9007199254740992 = 9007199254740992"
    by code_simp
  moreover have "Number_of_BigInt (- 9007199254740992) = - 9007199254740992"
    by code_simp
  ultimately show ?thesis by auto
qed

subsection \<open>parseData\<close>

lemma short_buffer_raises:
  assumes "length buf < 28"
  shows "(\<exists>e. readBigInt64LE buf 8 = Inl e) \<or> (\<exists>e. readBigInt64LE buf 16 = Inl e)
         \<or> (\<exists>e. readInt32LE buf 24 = Inl e)"
  using assms by (simp add: readInt32LE_def Buffer_readInt32LE_def Buffer_readUInt32LE_def)

lemma parseData_try_short:
  assumes "dec d0 = Inr buf" "length buf < 28" "d0 \<noteq> []"
  shows "\<exists>e. parseData_try dec now (Some (d0 # ds)) = Inl e"
  using short_buffer_raises[OF assms(2)] assms(1,3)
  by (auto simp: parseData_try_def split: sum.splits)

lemma parseData_total: "\<exists>r. parseData dec now data = Inr r"
  by (simp add: parseData_def split: sum.splits)



lemma parseData_encoded:
  assumes "length header = 8" and "d0 \<noteq> []"
    and "dec d0 = Inr (encode header p c e rest)"
  shows "readBigInt64LE (encode header p c e rest) 8 = Inr (sint p)"
    and "readBigInt64LE (encode header p c e rest) 16 = Inr (sint c)"
    and "readInt32LE (encode header p c e rest) 24 = Inr (sint e)"
    and "parseData dec now (Some (d0 # ds)) =
          Inr (Some \<lparr>price = FMulPow10 (Number_of_BigInt (sint p)) (sint e),
                     confidence = FMulPow10 (Number_of_BigInt (sint c)) (sint e),
                     exponent = sint e,
                     rawPrice = Number_of_BigInt (sint p),
                     rawConfidence = Number_of_BigInt (sint c),
                     timestamp = now,
                     raw = d0\<rparr>)"
proof -
  let ?b = "encode header p c e rest"
  have l64: "length (le64 p) = 8" "length (le64 c) = 8"
    by (simp_all add: le64_def length_le_bytes)
  show r1: "readBigInt64LE ?b 8 = Inr (sint p)"
    using read_i64_le64[of header p "le64 c @ le32 e @ rest"] assms(1)
    by (simp add: encode_def)
  show r2: "readBigInt64LE ?b 16 = Inr (sint c)"
    using read_i64_le64[of "header @ le64 p" c "le32 e @ rest"] assms(1) l64
    by (simp add: encode_def)
  show r3: "readInt32LE ?b 24 = Inr (sint e)"
    using read_i32_le32[of "header @ le64 p @ le64 c" e rest] assms(1) l64
    by (simp add: encode_def readInt32LE_def)
  show "parseData dec now (Some (d0 # ds)) =
          Inr (Some \<lparr>price = FMulPow10 (Number_of_BigInt (sint p)) (sint e),
                     confidence = FMulPow10 (Number_of_BigInt (sint c)) (sint e),
                     exponent = sint e,
                     rawPrice = Number_of_BigInt (sint p),
                     rawConfidence = Number_of_BigInt (sint c),
                     timestamp = now,
                     raw = d0\<rparr>)"
    using assms(2,3) by (simp add: parseData_def parseData_try_def r1 r2 r3)
qed

text \<open>
  Claim C5, as the code has it. For every signed 64-bit \<open>p\<close>, \<open>c\<close> and signed 32-bit
  \<open>e\<close>, a payload that holds them little-endian at byte offsets 8, 16 and 24 is
  read back exactly by the BigInt reconstruction \<open>high * 2^32 + low\<close> and by the
  32-bit read, and \<open>parseData\<close> returns the exponent exactly. The returned
  \<open>rawPrice\<close> and \<open>rawConfidence\<close> are \<open>Number(...)\<close> of the reconstructed
  values: equal to them whenever their magnitude is at most \<open>2^53\<close>, rounded to the
  nearest float64 beyond. \<open>price\<close> and \<open>confidence\<close> are the float64 products of
  those Numbers with \<open>Math.pow(10, exponent)\<close>.
\<close>

theorem decode_encode_roundtrip:
  assumes "length header = 8" and "d0 \<noteq> []"
    and "dec d0 = Inr (encode header p c e rest)"
  shows "readBigInt64LE (encode header p c e rest) 8 = Inr (sint p)
       \<and> readBigInt64LE (encode header p c e rest) 16 = Inr (sint c)
       \<and> readInt32LE (encode header p c e rest) 24 = Inr (sint e)
       \<and> parseData dec now (Some (d0 # ds)) =
          Inr (Some \<lparr>price = FMulPow10 (Number_of_BigInt (sint p)) (sint e),
                     confidence = FMulPow10 (Number_of_BigInt (sint c)) (sint e),
                     exponent = sint e,
                     rawPrice = Number_of_BigInt (sint p),
                     rawConfidence = Number_of_BigInt (sint c),
                     timestamp = now,
                     raw = d0\<rparr>)
       \<and> (\<bar>sint p\<bar> \<le> 2 ^ 53 \<longrightarrow> Number_of_BigInt (sint p) = sint p)
       \<and> (\<bar>sint c\<bar> \<le> 2 ^ 53 \<longrightarrow> Number_of_BigInt (sint c) = sint c)"
  using parseData_encoded(1,2,3)[where dec = dec, OF assms]
    parseData_encoded(4)[where dec = dec and now = now and ds = ds, OF assms]
    Number_of_BigInt_exact
  by blast

theorem decode_encode_roundtrip_witness:
  "parseData (const_decoder (encode (replicate 8 0) 12345 7 (- 2) [])) 1000 (Some [''AAAA'']) =
     Inr (Some \<lparr>price = FMulPow10 12345 (- 2), confidence = FMulPow10 7 (- 2),
                exponent = - 2, rawPrice = 12345, rawConfidence = 7,
                timestamp = 1000, raw = ''AAAA''\<rparr>)"
proof -
  have h1: "length (replicate 8 (0::byte)) = 8" by simp
  have h2: "''AAAA'' \<noteq> []" by simp
  have h3: "const_decoder (encode (replicate 8 0) 12345 7 (- 2) []) ''AAAA''
            = Inr (encode (replicate 8 0) 12345 7 (- 2) [])"
    by (simp add: const_decoder_def)
  have s: "sint (12345 :: 64 word) = 12345" "sint (7 :: 64 word) = 7" "sint (- 2 :: 32 word) = - 2"
    by simp_all
  show ?thesis
    using decode_encode_roundtrip[where dec = "const_decoder (encode (replicate 8 0) 12345 7 (- 2) [])"
        and now = 1000 and ds = "[]", OF h1 h2 h3]
    by (simp add: s)
qed

text \<open>
  Claim C5 as stated asks for \<open>rawPrice\<close> to be reproduced exactly for every signed
  64-bit value. The payload that encodes \<open>2^53 + 1\<close> decodes to
  \<open>rawPrice = 2^53\<close>: \<open>Number(price)\<close> rounds to 53 significant bits.
\<close>

theorem decode_large_price_counterexample:
  "parseData (const_decoder (encode (replicate 8 0) 9007199254740993 0 0 [])) 0 (Some [''AAAA'']) =
     Inr (Some \<lparr>price = FMulPow10 9007199254740992 0, confidence = FMulPow10 0 0,
                exponent = 0, rawPrice = 9007199254740992, rawConfidence = 0,
                timestamp = 0, raw = ''AAAA''\<rparr>)
   \<and> sint (9007199254740993 :: 64 word) = 9007199254740993"
proof -
  have h1: "length (replicate 8 (0::byte)) = 8" by simp
  have h2: "''AAAA'' \<noteq> []" by simp
  have h3: "const_decoder (encode (replicate 8 0) 9007199254740993 0 0 []) ''AAAA''
            = Inr (encode (replicate 8 0) 9007199254740993 0 0 [])"
    by (simp add: const_decoder_def)
  have s: "sint (9007199254740993 :: 64 word) = 9007199254740993" by simp
  have n: "Number_of_BigInt 9007199254740993 = 9007199254740992" by code_simp
  have z: "Number_of_BigInt 0 = 0" by code_simp
  show ?thesis
    using parseData_encoded(4)[where dec = "const_decoder (encode (replicate 8 0) 9007199254740993 0 0 [])"
        and now = 0 and ds = "[]", OF h1 h2 h3]
    by (simp add: s n z)
qed

lemma long_buffer_reads:
  assumes "28 \<le> length buf"
  shows "\<exists>p c e. readBigInt64LE buf 8 = Inr p \<and> readBigInt64LE buf 16 = Inr c
               \<and> readInt32LE buf 24 = Inr e"
  using assms
  by (simp add: readBigInt64LE_def readInt32LE_def Buffer_readInt32LE_def Buffer_readUInt32LE_def)

lemma parseData_long:
  assumes "d0 \<noteq> []" and "dec d0 = Inr buf" and "28 \<le> length buf"
  shows "\<exists>r. parseData dec now (Some (d0 # ds)) = Inr (Some r)"
proof -
  obtain p c e where "readBigInt64LE buf 8 = Inr p" "readBigInt64LE buf 16 = Inr c"
      "readInt32LE buf 24 = Inr e"
    using long_buffer_reads[OF assms(3)] by blast
  then show ?thesis
    using assms(1,2) by (simp add: parseData_def parseData_try_def)
qed

lemma parseData_short:
  assumes "d0 \<noteq> []" and "dec d0 = Inr buf" and "length buf < 28"
  shows "parseData dec now (Some (d0 # ds)) = Inr None"
proof -
  obtain e where "parseData_try dec now (Some (d0 # ds)) = Inl e"
    using parseData_try_short[where dec = dec, OF assms(2,3,1)] by blast
  then show ?thesis by (simp add: parseData_def)
qed

lemma parseData_buffer:
  "parseData Buffer_from_base64 now (Some (d0 # ds)) = Inr None
     \<longleftrightarrow> d0 = [] \<or> length (toByteArray (map revLookup (base64clean d0))) < 28"
proof (cases "d0 = []")
  case True
  then show ?thesis by (simp add: parseData_def parseData_try_def)
next
  case False
  let ?buf = "toByteArray (map revLookup (base64clean d0))"
  have d: "Buffer_from_base64 d0 = Inr ?buf" by (simp add: Buffer_from_base64_def)
  show ?thesis
  proof (cases "length ?buf < 28")
    case True
    then show ?thesis
      using parseData_short[where dec = Buffer_from_base64, OF False d True] by simp
  next
    case long: False
    then have "28 \<le> length ?buf" by simp
    then obtain r where "parseData Buffer_from_base64 now (Some (d0 # ds)) = Inr (Some r)"
      using parseData_long[where dec = Buffer_from_base64, OF False d] by blast
    then show ?thesis using False long by simp
  qed
qed

text \<open>
  Claim C6, as the code has it. \<open>parseData\<close> never lets an exception out (its result
  is never \<open>Inl\<close>). It returns \<open>null\<close> when the input is absent, when its first
  element is absent or empty, when the decoder raises, and when the decoded buffer is
  shorter than 28 bytes; a decoded buffer of 28 bytes or more always gives a reading.
  The decoder of the \<open>buffer\<close> package never raises on a string and drops the
  characters that are not base64, so for a malformed base64 text the outcome is decided
  by what is left: \<open>null\<close> exactly when it decodes to fewer than 28 bytes.
\<close>

theorem parseData_no_reading:
  "(\<exists>r. parseData dec now data = Inr r) \<and>
   (data = None
    \<or> (\<exists>ds. data = Some ds \<and>
          (ds = [] \<or> hd ds = [] \<or> (\<exists>e. dec (hd ds) = Inl e)
           \<or> (\<exists>buf. dec (hd ds) = Inr buf \<and> length buf < 28)))
    \<longrightarrow> parseData dec now data = Inr None) \<and>
   (d0 \<noteq> [] \<and> dec d0 = Inr buf \<and> 28 \<le> length buf
    \<longrightarrow> (\<exists>r. parseData dec now (Some (d0 # ds)) = Inr (Some r))) \<and>
   (parseData Buffer_from_base64 now (Some (d0 # ds)) = Inr None
     \<longleftrightarrow> d0 = [] \<or> length (toByteArray (map revLookup (base64clean d0))) < 28)"
proof (intro conjI impI)
  show "\<exists>r. parseData dec now data = Inr r" by (rule parseData_total)
next
  assume a: "data = None
    \<or> (\<exists>ds. data = Some ds \<and>
          (ds = [] \<or> hd ds = [] \<or> (\<exists>e. dec (hd ds) = Inl e)
           \<or> (\<exists>buf. dec (hd ds) = Inr buf \<and> length buf < 28)))"
  show "parseData dec now data = Inr None"
  proof (cases data)
    case None
    then show ?thesis by (simp add: parseData_def parseData_try_def)
  next
    case (Some ds)
    show ?thesis
    proof (cases ds)
      case Nil
      then show ?thesis using Some by (simp add: parseData_def parseData_try_def)
    next
      case (Cons x rest)
      show ?thesis
      proof (cases "x = []")
        case True
        then show ?thesis using Some Cons by (simp add: parseData_def parseData_try_def)
      next
        case False
        from a Some Cons False
        consider (raises) e where "dec x = Inl e"
          | (short) b where "dec x = Inr b" "length b < 28"
          by auto
        then show ?thesis
        proof cases
          case raises
          then show ?thesis
            using Some Cons False by (simp add: parseData_def parseData_try_def)
        next
          case short
          then show ?thesis
            using parseData_short[where dec = dec, OF False short] Some Cons by simp
        qed
      qed
    qed
  qed
next
  assume "d0 \<noteq> [] \<and> dec d0 = Inr buf \<and> 28 \<le> length buf"
  then show "\<exists>r. parseData dec now (Some (d0 # ds)) = Inr (Some r)"
    using parseData_long[where dec = dec] by blast
next
  show "parseData Buffer_from_base64 now (Some (d0 # ds)) = Inr None
     \<longleftrightarrow> d0 = [] \<or> length (toByteArray (map revLookup (base64clean d0))) < 28"
    by (rule parseData_buffer)
qed

lemma decode_malformed_short: "Buffer_from_base64 ''!!AA!!'' = Inr [0]"
  by (simp add: Buffer_from_base64_def base64clean_def b64_valid_def revLookup_def Let_def)

lemma decode_malformed_long:
  "Buffer_from_base64 ''AAAAAAAAAAA5MAAA!AAAAAAcAAAAAAAAA/v///w=='' =
     Inr [0, 0, 0, 0, 0, 0, 0, 0, 57, 48, 0, 0, 0, 0, 0, 0, 7, 0, 0, 0, 0, 0, 0, 0,
          254, 255, 255, 255]"
  by (simp add: Buffer_from_base64_def base64clean_def b64_valid_def revLookup_def Let_def)

theorem parseData_no_reading_witness:
  "parseData (const_decoder (replicate 27 0)) 0 (Some [''AAAA'']) = Inr None
   \<and> parseData (const_decoder (replicate 27 0)) 0 None = Inr None
   \<and> parseData (const_decoder (replicate 27 0)) 0 (Some []) = Inr None
   \<and> parseData (const_decoder (replicate 27 0)) 0 (Some [[]]) = Inr None
   \<and> parseData Buffer_from_base64 0 (Some [''!!AA!!'']) = Inr None
   \<and> parseData Buffer_from_base64 0 (Some [''AAAAAAAAAAA5MAAA!AAAAAAcAAAAAAAAA/v///w=='']) \<noteq> Inr None
   \<and> (\<exists>r. parseData (const_decoder (replicate 28 0)) 0 (Some [''AAAA'']) = Inr (Some r))"
proof -
  let ?d = "const_decoder (replicate 27 (0::byte))"
  have "\<exists>buf. ?d (hd [''AAAA'']) = Inr buf \<and> length buf < 28"
    by (simp add: const_decoder_def)
  then have 1: "parseData ?d 0 (Some [''AAAA'']) = Inr None"
    using parseData_no_reading[of ?d 0 "Some [''AAAA'']"] by blast
  have 2: "parseData ?d 0 None = Inr None"
    using parseData_no_reading[of ?d 0 None] by blast
  have 3: "parseData ?d 0 (Some []) = Inr None"
    using parseData_no_reading[of ?d 0 "Some []"] by blast
  have 4: "parseData ?d 0 (Some [[]]) = Inr None"
    using parseData_no_reading[of ?d 0 "Some [[]]"] by simp
  have s: "toByteArray (map revLookup (base64clean ''!!AA!!'')) = [0]"
    using decode_malformed_short by (simp add: Buffer_from_base64_def)
  have 5: "parseData Buffer_from_base64 0 (Some [''!!AA!!'']) = Inr None"
    using parseData_no_reading[where now = 0 and ds = "[]" and ?d0.0 = "''!!AA!!''"]
    by (simp add: s)
  have l: "length (toByteArray (map revLookup
              (base64clean ''AAAAAAAAAAA5MAAA!AAAAAAcAAAAAAAAA/v///w==''))) = 28"
    using decode_malformed_long by (simp add: Buffer_from_base64_def)
  have 6: "parseData Buffer_from_base64 0
             (Some [''AAAAAAAAAAA5MAAA!AAAAAAcAAAAAAAAA/v///w=='']) \<noteq> Inr None"
    using parseData_no_reading[where now = 0 and ds = "[]"
            and ?d0.0 = "''AAAAAAAAAAA5MAAA!AAAAAAcAAAAAAAAA/v///w==''"]
    by (simp add: l)
  have "''AAAA'' \<noteq> [] \<and> const_decoder (replicate 28 0) ''AAAA'' = Inr (replicate 28 (0::byte))
          \<and> 28 \<le> length (replicate 28 (0::byte))"
    by (simp add: const_decoder_def)
  then have 7: "\<exists>r. parseData (const_decoder (replicate 28 0)) 0 (Some [''AAAA'']) = Inr (Some r)"
    using parseData_no_reading[where dec = "const_decoder (replicate 28 0)" and now = 0
            and ds = "[]" and ?d0.0 = "''AAAA''" and buf = "replicate 28 0"]
    by blast
  show ?thesis using 1 2 3 4 5 6 7 by simp
qed

text \<open>
  Claim C6 as stated has \<open>parseData\<close> return \<open>null\<close> for malformed base64. The text
  below is not base64 (it holds a \<open>!\<close>); the decoder drops that character, the rest
  decodes to 28 bytes, and \<open>parseData\<close> returns the reading they encode.
\<close>

theorem malformed_base64_decoded_counterexample:
  "parseData Buffer_from_base64 0 (Some [''AAAAAAAAAAA5MAAA!AAAAAAcAAAAAAAAA/v///w=='']) =
     Inr (Some \<lparr>price = FMulPow10 12345 (- 2), confidence = FMulPow10 7 (- 2),
                exponent = - 2, rawPrice = 12345, rawConfidence = 7,
                timestamp = 0, raw = ''AAAAAAAAAAA5MAAA!AAAAAAcAAAAAAAAA/v///w==''\<rparr>)
   \<and> \<not> b64_valid CHR ''!''"
proof -
  have n: "Number_of_BigInt 12345 = 12345" "Number_of_BigInt 7 = 7" by code_simp+
  have r: "readBigInt64LE [0, 0, 0, 0, 0, 0, 0, 0, 57, 48, 0, 0, 0, 0, 0, 0, 7, 0, 0, 0, 0, 0, 0, 0,
          254, 255, 255, 255] 8 = Inr 12345"
     "readBigInt64LE [0, 0, 0, 0, 0, 0, 0, 0, 57, 48, 0, 0, 0, 0, 0, 0, 7, 0, 0, 0, 0, 0, 0, 0,
          254, 255, 255, 255] 16 = Inr 7"
     "readInt32LE [0, 0, 0, 0, 0, 0, 0, 0, 57, 48, 0, 0, 0, 0, 0, 0, 7, 0, 0, 0, 0, 0, 0, 0,
          254, 255, 255, 255] 24 = Inr (- 2)"
    by (simp_all add: readBigInt64LE_def readInt32LE_def Buffer_readInt32LE_def
          Buffer_readUInt32LE_def)
  have "\<not> b64_valid CHR ''!''" by (simp add: b64_valid_def)
  then show ?thesis
    by (simp add: parseData_def parseData_try_def decode_malformed_long r n)
qed

section \<open>Properties of the manager\<close>

subsection \<open>What each operation leaves alone\<close>

lemma subscribe_frame:
  "opts (subscribe a p s) = opts s"
  "reconnectAttempts (subscribe a p s) = reconnectAttempts s"
  "timers (subscribe a p s) = timers s"
  "isConnected (subscribe a p s) = isConnected s"
  "connectionPromise (subscribe a p s) = connectionPromise s"
  "messageHandlers (subscribe a p s) = messageHandlers s"
  "calls (subscribe a p s) = calls s"
  "ws (subscribe a p s) = ws s"
  "sockets (subscribe a p s) = sockets s"
  "waiting (subscribe a p s) = waiting s"
  by (simp_all add: subscribe_def Let_def)

text \<open>Both loops of \<open>ws_onopen\<close> are folds of \<open>subscribe\<close>.\<close>

lemma subscribes_frame:
  "opts (fold (\<lambda>(a, x) st. subscribe a (g x) st) xs s) = opts s"
  "reconnectAttempts (fold (\<lambda>(a, x) st. subscribe a (g x) st) xs s) = reconnectAttempts s"
  "timers (fold (\<lambda>(a, x) st. subscribe a (g x) st) xs s) = timers s"
  "isConnected (fold (\<lambda>(a, x) st. subscribe a (g x) st) xs s) = isConnected s"
  "connectionPromise (fold (\<lambda>(a, x) st. subscribe a (g x) st) xs s) = connectionPromise s"
  "messageHandlers (fold (\<lambda>(a, x) st. subscribe a (g x) st) xs s) = messageHandlers s"
  "calls (fold (\<lambda>(a, x) st. subscribe a (g x) st) xs s) = calls s"
  "ws (fold (\<lambda>(a, x) st. subscribe a (g x) st) xs s) = ws s"
  "sockets (fold (\<lambda>(a, x) st. subscribe a (g x) st) xs s) = sockets s"
  "waiting (fold (\<lambda>(a, x) st. subscribe a (g x) st) xs s) = waiting s"
  by (induction xs arbitrary: s; simp add: subscribe_frame split: prod.splits)+

lemmas waiting_frame = subscribes_frame[where g = "\<lambda>x. x"]
lemmas resubscribe_frame = subscribes_frame[where g = entry_val]

lemma ws_onopen_frame:
  "opts (ws_onopen s) = opts s"
  "reconnectAttempts (ws_onopen s) = 0"
  "timers (ws_onopen s) = timers s"
  "isConnected (ws_onopen s)"
  "connectionPromise (ws_onopen s) = connectionPromise s"
  "messageHandlers (ws_onopen s) = messageHandlers s"
  "ws (ws_onopen s) = ws s"
  "sockets (ws_onopen s) = sockets s"
  "waiting (ws_onopen s) = []"
  by (simp_all add: ws_onopen_def Let_def waiting_frame resubscribe_frame)

lemma removers_frame:
  "opts (fold remove_by_id is s) = opts s"
  "reconnectAttempts (fold remove_by_id is s) = reconnectAttempts s"
  "timers (fold remove_by_id is s) = timers s"
  "isConnected (fold remove_by_id is s) = isConnected s"
  "connectionPromise (fold remove_by_id is s) = connectionPromise s"
  "subscriptions (fold remove_by_id is s) = subscriptions s"
  "lastMessageId (fold remove_by_id is s) = lastMessageId s"
  "sent (fold remove_by_id is s) = sent s"
  "ws (fold remove_by_id is s) = ws s"
  "sockets (fold remove_by_id is s) = sockets s"
  "waiting (fold remove_by_id is s) = waiting s"
  "calls (fold remove_by_id is s) = calls s"
  "log (fold remove_by_id is s) = log s"
  by (induction "is" arbitrary: s; simp add: remove_by_id_def)+

lemma notify_frame:
  "opts (notify m h s) = opts s"
  "reconnectAttempts (notify m h s) = reconnectAttempts s"
  "timers (notify m h s) = timers s"
  "isConnected (notify m h s) = isConnected s"
  "connectionPromise (notify m h s) = connectionPromise s"
  "subscriptions (notify m h s) = subscriptions s"
  "lastMessageId (notify m h s) = lastMessageId s"
  "sent (notify m h s) = sent s"
  "ws (notify m h s) = ws s"
  "sockets (notify m h s) = sockets s"
  "waiting (notify m h s) = waiting s"
  by (simp_all add: notify_def Let_def removers_frame split: option.splits)

lemma forEach_frame:
  "opts (forEach_handlers m k len s) = opts s"
  "reconnectAttempts (forEach_handlers m k len s) = reconnectAttempts s"
  "timers (forEach_handlers m k len s) = timers s"
  "isConnected (forEach_handlers m k len s) = isConnected s"
  "connectionPromise (forEach_handlers m k len s) = connectionPromise s"
  "subscriptions (forEach_handlers m k len s) = subscriptions s"
  "lastMessageId (forEach_handlers m k len s) = lastMessageId s"
  "sent (forEach_handlers m k len s) = sent s"
  "ws (forEach_handlers m k len s) = ws s"
  "sockets (forEach_handlers m k len s) = sockets s"
  "waiting (forEach_handlers m k len s) = waiting s"
  by (induction m k len s rule: forEach_handlers.induct;
      subst forEach_handlers.simps; simp add: notify_frame)+

lemma correlate_frame:
  assumes "correlate m s = Inr s1"
  shows "opts s1 = opts s" "reconnectAttempts s1 = reconnectAttempts s" "timers s1 = timers s"
    "isConnected s1 = isConnected s" "connectionPromise s1 = connectionPromise s"
    "messageHandlers s1 = messageHandlers s" "lastMessageId s1 = lastMessageId s"
    "sent s1 = sent s" "calls s1 = calls s" "log s1 = log s" "ws s1 = ws s"
    "sockets s1 = sockets s" "waiting s1 = waiting s"
  using assms by (auto simp: correlate_def split: sum.splits if_splits)

lemma ws_onmessage_frame:
  "opts (ws_onmessage parsed s) = opts s"
  "reconnectAttempts (ws_onmessage parsed s) = reconnectAttempts s"
  "timers (ws_onmessage parsed s) = timers s"
  "isConnected (ws_onmessage parsed s) = isConnected s"
  "connectionPromise (ws_onmessage parsed s) = connectionPromise s"
  "lastMessageId (ws_onmessage parsed s) = lastMessageId s"
  "sent (ws_onmessage parsed s) = sent s"
  "ws (ws_onmessage parsed s) = ws s"
  "sockets (ws_onmessage parsed s) = sockets s"
  "waiting (ws_onmessage parsed s) = waiting s"
  by (auto simp: ws_onmessage_def dispatch_def forEach_frame correlate_frame split: sum.splits)

lemma connect_frame:
  "opts (connect s) = opts s"
  "reconnectAttempts (connect s) = reconnectAttempts s"
  "timers (connect s) = timers s"
  "subscriptions (connect s) = subscriptions s"
  "lastMessageId (connect s) = lastMessageId s"
  "sent (connect s) = sent s"
  "messageHandlers (connect s) = messageHandlers s"
  "waiting (connect s) = waiting s"
  by (simp_all add: connect_def)

lemma step_opts: "opts (step ev s) = opts s"
  by (cases ev)
     (simp_all add: connect_frame ws_onopen_frame ws_onmessage_frame
        ws_onerror_def ws_onclose_def Let_def timer_fires_def subscribe_frame unsubscribe_def
        onMessage_def removeHandler_def remove_by_id_def disconnect_def
        split: list.splits option.splits)

subsection \<open>Reconnection\<close>

lemma ws_onclose_retry:
  assumes "reconnectAttempts s < maxReconnectAttempts (opts s)"
  shows "timers (ws_onclose s) = timers s @ [reconnectInterval (opts s)]"
    and "reconnectAttempts (ws_onclose s) = reconnectAttempts s + 1"
  using assms by (simp_all add: ws_onclose_def Let_def)

lemma ws_onclose_exhausted:
  assumes "maxReconnectAttempts (opts s) \<le> reconnectAttempts s"
  shows "timers (ws_onclose s) = timers s"
    and "reconnectAttempts (ws_onclose s) = reconnectAttempts s"
  using assms by (simp_all add: ws_onclose_def Let_def)

lemma step_attempts_mono:
  assumes "ev \<noteq> Open"
  shows "reconnectAttempts s \<le> reconnectAttempts (step ev s)"
  using assms
  by (cases ev)
     (simp_all add: connect_frame ws_onmessage_frame
        ws_onerror_def ws_onclose_def Let_def timer_fires_def subscribe_frame unsubscribe_def
        onMessage_def removeHandler_def remove_by_id_def disconnect_def split: list.splits option.splits)

lemma unchanged_is_drop: "ys = xs \<Longrightarrow> \<exists>k. ys = drop k xs"
  by (rule exI[of _ 0]) simp

lemma step_timers_exhausted:
  assumes "ev \<noteq> Open" and "maxReconnectAttempts (opts s) \<le> reconnectAttempts s"
  shows "\<exists>k. timers (step ev s) = drop k (timers s)"
proof (cases ev)
  case TimerFires
  show ?thesis
  proof (cases "timers s")
    case Nil
    then show ?thesis using TimerFires by (simp add: timer_fires_def)
  next
    case (Cons d ds)
    then have "timers (step ev s) = drop 1 (timers s)"
      using TimerFires by (simp add: timer_fires_def connect_frame)
    then show ?thesis by (rule exI)
  qed
next
  case Close
  then show ?thesis
    using assms(2) by (intro unchanged_is_drop) (simp add: ws_onclose_exhausted)
next
  case Open
  then show ?thesis using assms(1) by simp
next
  case Connect
  then show ?thesis by (intro unchanged_is_drop) (simp add: connect_frame)
next
  case (Message parsed)
  then show ?thesis by (intro unchanged_is_drop) (simp add: ws_onmessage_frame)
next
  case Error
  then show ?thesis by (intro unchanged_is_drop) (simp add: ws_onerror_def Let_def)
next
  case (Subscribe a ps)
  then show ?thesis by (intro unchanged_is_drop) (simp add: connect_frame subscribe_frame)
next
  case (Unsubscribe a)
  then show ?thesis
    by (intro unchanged_is_drop) (simp add: unsubscribe_def Let_def split: option.splits)
next
  case (OnMessage h)
  then show ?thesis by (intro unchanged_is_drop) (simp add: onMessage_def)
next
  case (RemoveHandler h)
  then show ?thesis by (intro unchanged_is_drop) (simp add: removeHandler_def remove_by_id_def)
next
  case Disconnect
  then show ?thesis
    by (intro unchanged_is_drop) (simp add: disconnect_def split: option.splits)
qed

lemma run_exhausted:
  assumes "Open \<notin> set evs" and "maxReconnectAttempts (opts s) \<le> reconnectAttempts s"
  shows "(\<exists>k. timers (run evs s) = drop k (timers s))
        \<and> maxReconnectAttempts (opts (run evs s)) \<le> reconnectAttempts (run evs s)"
  using assms
proof (induction evs arbitrary: s)
  case Nil
  then show ?case by (simp add: run_def unchanged_is_drop)
next
  case (Cons ev evs)
  let ?s = "step ev s"
  have ne: "ev \<noteq> Open" and rest: "Open \<notin> set evs" using Cons.prems(1) by auto
  have ex: "maxReconnectAttempts (opts ?s) \<le> reconnectAttempts ?s"
    using step_attempts_mono[OF ne, of s] Cons.prems(2) by (simp add: step_opts)
  obtain k where k: "timers ?s = drop k (timers s)"
    using step_timers_exhausted[OF ne Cons.prems(2)] by blast
  obtain j where j: "timers (run evs ?s) = drop j (timers ?s)"
    and e: "maxReconnectAttempts (opts (run evs ?s)) \<le> reconnectAttempts (run evs ?s)"
    using Cons.IH[OF rest ex] by blast
  have "timers (run (ev # evs) s) = drop (j + k) (timers s)"
    using j k by (simp add: run_def)
  then have "\<exists>i. timers (run (ev # evs) s) = drop i (timers s)" by (rule exI)
  then show ?case using e by (simp add: run_def)
qed

lemma closures_in_a_row:
  "timers ((ws_onclose ^^ k) s) =
     timers s @ replicate (min k (maxReconnectAttempts (opts s) - reconnectAttempts s))
                          (reconnectInterval (opts s))
   \<and> reconnectAttempts ((ws_onclose ^^ k) s) =
       reconnectAttempts s + min k (maxReconnectAttempts (opts s) - reconnectAttempts s)
   \<and> opts ((ws_onclose ^^ k) s) = opts s"
proof (induction k)
  case 0
  then show ?case by simp
next
  case (Suc k)
  let ?t = "(ws_onclose ^^ k) s"
  show ?case
  proof (cases "reconnectAttempts ?t < maxReconnectAttempts (opts ?t)")
    case True
    then have "k < maxReconnectAttempts (opts s) - reconnectAttempts s"
      using Suc by (simp add: min_def split: if_splits)
    then have m: "min (Suc k) (maxReconnectAttempts (opts s) - reconnectAttempts s) = Suc k"
      "min k (maxReconnectAttempts (opts s) - reconnectAttempts s) = k"
      by simp_all
    show ?thesis
      using ws_onclose_retry[OF True] Suc m
      by (simp add: ws_onclose_def Let_def replicate_append_same)
  next
    case False
    then have f: "maxReconnectAttempts (opts ?t) \<le> reconnectAttempts ?t" by simp
    then have "maxReconnectAttempts (opts s) - reconnectAttempts s \<le> k"
      using Suc by (simp add: min_def split: if_splits)
    then have m: "min (Suc k) (maxReconnectAttempts (opts s) - reconnectAttempts s)
        = min k (maxReconnectAttempts (opts s) - reconnectAttempts s)"
      by simp
    show ?thesis
      using ws_onclose_exhausted[OF f] Suc m
      by (simp add: ws_onclose_def Let_def)
  qed
qed


lemma retry_connects:
  assumes "reconnectAttempts s < maxReconnectAttempts (opts s)"
  shows "sockets (timer_fires (ws_onclose s)) = sockets s + 1"
    and "ws (timer_fires (ws_onclose s)) = Some (sockets s)"
    and "connectionPromise (timer_fires (ws_onclose s))"
    and "timers (timer_fires (ws_onclose s)) = tl (timers s @ [reconnectInterval (opts s)])"
  using assms
  by (cases "timers s"; simp add: timer_fires_def ws_onclose_def Let_def connect_def)+

lemma step_quiet:
  assumes "ev \<noteq> Open" and "ev \<noteq> Connect" and "\<forall>a p. ev \<noteq> Subscribe a p"
    and "timers s = []" and "maxReconnectAttempts (opts s) \<le> reconnectAttempts s"
  shows "sockets (step ev s) = sockets s \<and> ws (step ev s) = ws s \<and> timers (step ev s) = []"
  using assms
  by (cases ev)
     (simp_all add: ws_onmessage_frame ws_onerror_def ws_onclose_def Let_def timer_fires_def
        unsubscribe_def onMessage_def removeHandler_def remove_by_id_def disconnect_def
        split: option.splits)

lemma run_quiet:
  assumes "list_all (\<lambda>ev. ev \<noteq> Open \<and> ev \<noteq> Connect \<and> (\<forall>a p. ev \<noteq> Subscribe a p)) evs"
    and "timers s = []" and "maxReconnectAttempts (opts s) \<le> reconnectAttempts s"
  shows "sockets (run evs s) = sockets s \<and> ws (run evs s) = ws s"
  using assms
proof (induction evs arbitrary: s)
  case Nil
  then show ?case by (simp add: run_def)
next
  case (Cons ev evs)
  have q: "ev \<noteq> Open" "ev \<noteq> Connect" "\<forall>a p. ev \<noteq> Subscribe a p"
    using Cons.prems(1) by simp_all
  have st: "sockets (step ev s) = sockets s \<and> ws (step ev s) = ws s \<and> timers (step ev s) = []"
    using step_quiet[OF q Cons.prems(2,3)] .
  have ex: "maxReconnectAttempts (opts (step ev s)) \<le> reconnectAttempts (step ev s)"
    using step_attempts_mono[OF q(1), of s] Cons.prems(3) by (simp add: step_opts)
  have "sockets (run evs (step ev s)) = sockets (step ev s)
        \<and> ws (run evs (step ev s)) = ws (step ev s)"
    using Cons.prems(1) st ex by (intro Cons.IH) simp_all
  then show ?case using st by (simp add: run_def)
qed

text \<open>
  Claim C4. A closure with the attempt counter below the maximum schedules exactly one
  retry, after the configured interval, and counts it; when a retry timer then fires,
  its callback \<open>connect()\<close> makes a new socket and a new connection promise.
  \<open>k\<close> closures in a row schedule one retry each until the maximum is reached and
  none after. Once the counter has reached the maximum, no sequence of events without
  a socket opening schedules a retry (pending ones can only fire), and when no retry is
  pending any more, no socket is made until a caller invokes \<open>connect()\<close> or
  \<open>subscribe()\<close>. Only the \<open>open\<close> handler ever lowers the counter, which it sets
  to zero.
\<close>

theorem reconnect_policy:
  "(reconnectAttempts s < maxReconnectAttempts (opts s) \<longrightarrow>
      timers (ws_onclose s) = timers s @ [reconnectInterval (opts s)]
      \<and> reconnectAttempts (ws_onclose s) = reconnectAttempts s + 1
      \<and> sockets (timer_fires (ws_onclose s)) = sockets s + 1
      \<and> ws (timer_fires (ws_onclose s)) = Some (sockets s)
      \<and> connectionPromise (timer_fires (ws_onclose s))
      \<and> timers (timer_fires (ws_onclose s)) = tl (timers s @ [reconnectInterval (opts s)]))
   \<and> timers ((ws_onclose ^^ k) s) =
       timers s @ replicate (min k (maxReconnectAttempts (opts s) - reconnectAttempts s))
                            (reconnectInterval (opts s))
   \<and> (maxReconnectAttempts (opts s) \<le> reconnectAttempts s \<and> Open \<notin> set evs \<longrightarrow>
        (\<exists>j. timers (run evs s) = drop j (timers s))
        \<and> maxReconnectAttempts (opts (run evs s)) \<le> reconnectAttempts (run evs s))
   \<and> (maxReconnectAttempts (opts s) \<le> reconnectAttempts s \<and> timers s = []
       \<and> list_all (\<lambda>ev. ev \<noteq> Open \<and> ev \<noteq> Connect \<and> (\<forall>a p. ev \<noteq> Subscribe a p)) evs \<longrightarrow>
        sockets (run evs s) = sockets s \<and> ws (run evs s) = ws s)
   \<and> (ev \<noteq> Open \<longrightarrow> reconnectAttempts s \<le> reconnectAttempts (step ev s))
   \<and> reconnectAttempts (step Open s) = 0"
proof (intro conjI impI)
  assume a: "reconnectAttempts s < maxReconnectAttempts (opts s)"
  then show "timers (ws_onclose s) = timers s @ [reconnectInterval (opts s)]"
    and "reconnectAttempts (ws_onclose s) = reconnectAttempts s + 1"
    by (rule ws_onclose_retry)+
  from a show "sockets (timer_fires (ws_onclose s)) = sockets s + 1"
    and "ws (timer_fires (ws_onclose s)) = Some (sockets s)"
    and "connectionPromise (timer_fires (ws_onclose s))"
    and "timers (timer_fires (ws_onclose s)) = tl (timers s @ [reconnectInterval (opts s)])"
    by (rule retry_connects)+
next
  show "timers ((ws_onclose ^^ k) s) =
       timers s @ replicate (min k (maxReconnectAttempts (opts s) - reconnectAttempts s))
                            (reconnectInterval (opts s))"
    using closures_in_a_row[of k s] by simp
next
  assume a: "maxReconnectAttempts (opts s) \<le> reconnectAttempts s \<and> Open \<notin> set evs"
  then show "\<exists>j. timers (run evs s) = drop j (timers s)"
    and "maxReconnectAttempts (opts (run evs s)) \<le> reconnectAttempts (run evs s)"
    using run_exhausted[of evs s] by simp_all
next
  assume a: "maxReconnectAttempts (opts s) \<le> reconnectAttempts s \<and> timers s = []
       \<and> list_all (\<lambda>ev. ev \<noteq> Open \<and> ev \<noteq> Connect \<and> (\<forall>a p. ev \<noteq> Subscribe a p)) evs"
  then show "sockets (run evs s) = sockets s" and "ws (run evs s) = ws s"
    using run_quiet[of evs s] by simp_all
next
  assume "ev \<noteq> Open"
  then show "reconnectAttempts s \<le> reconnectAttempts (step ev s)"
    by (rule step_attempts_mono)
next
  show "reconnectAttempts (step Open s) = 0"
    by (simp add: ws_onopen_frame)
qed

lemma fresh_connected:
  "run [Connect, Open] fresh =
     fresh\<lparr>ws := Some 0, isConnected := True, connectionPromise := True, sockets := 1,
           log := [''WebSocket connection established'']\<rparr>"
  by (simp add: run_def fresh_def constructor_def connect_def ws_onopen_def Let_def)

theorem reconnect_policy_witness:
  "timers (ws_onclose (run [Connect, Open] fresh)) = [2000]
   \<and> timers ((ws_onclose ^^ 5) (run [Connect, Open] fresh)) = [2000, 2000, 2000, 2000, 2000]
   \<and> timers ((ws_onclose ^^ 6) (run [Connect, Open] fresh)) = [2000, 2000, 2000, 2000, 2000]
   \<and> reconnectAttempts (step Close (run [Connect, Open] fresh)) = 1
   \<and> length (timers (run [TimerFires, Close, Connect, Error, Close]
                 ((ws_onclose ^^ 5) (run [Connect, Open] fresh)))) \<le> 5
   \<and> reconnectAttempts (step Open ((ws_onclose ^^ 5) (run [Connect, Open] fresh))) = 0
   \<and> sockets (timer_fires (ws_onclose (run [Connect, Open] fresh))) = 2
   \<and> ws (timer_fires (ws_onclose (run [Connect, Open] fresh))) = Some 1
   \<and> sockets (run [TimerFires, Error, Close, Disconnect]
        (run [Connect, Open, Close, TimerFires, Close, TimerFires, Close, TimerFires,
              Close, TimerFires, Close, TimerFires, Close] fresh)) = 6"
proof -
  let ?s = "run [Connect, Open] fresh"
  let ?t = "(ws_onclose ^^ 5) ?s"
  have s: "reconnectAttempts ?s = 0" "opts ?s = default_options" "timers ?s = []"
    by (simp_all add: fresh_connected) (simp_all add: fresh_def constructor_def)
  have h1: "reconnectAttempts ?s < maxReconnectAttempts (opts ?s)"
    by (simp add: s default_options_def)
  have a: "timers (ws_onclose ?s) = [2000]" "reconnectAttempts (step Close ?s) = 1"
    using reconnect_policy[of ?s 0 "[]" Close] h1 by (simp_all add: s default_options_def)
  have b: "timers ?t = [2000, 2000, 2000, 2000, 2000]"
    using reconnect_policy[of ?s 5 "[]" Close]
    by (simp add: s default_options_def numeral_eq_Suc)
  have c: "timers ((ws_onclose ^^ 6) ?s) = [2000, 2000, 2000, 2000, 2000]"
    using reconnect_policy[of ?s 6 "[]" Close]
    by (simp add: s default_options_def numeral_eq_Suc)
  have t: "reconnectAttempts ?t = 5" "opts ?t = default_options"
    using closures_in_a_row[of 5 ?s] by (simp_all add: s default_options_def)
  have h2: "maxReconnectAttempts (opts ?t) \<le> reconnectAttempts ?t
            \<and> Open \<notin> set [TimerFires, Close, Connect, Error, Close]"
    by (simp add: t default_options_def)
  obtain j where "timers (run [TimerFires, Close, Connect, Error, Close] ?t) = drop j (timers ?t)"
    using reconnect_policy[of ?t 0 "[TimerFires, Close, Connect, Error, Close]" Close] h2
    by blast
  then have d: "length (timers (run [TimerFires, Close, Connect, Error, Close] ?t)) \<le> 5"
    by (simp add: b)
  have e: "reconnectAttempts (step Open ?t) = 0"
    using reconnect_policy[of ?t 0 "[]" Close] by simp
  have f: "sockets (timer_fires (ws_onclose ?s)) = 2" "ws (timer_fires (ws_onclose ?s)) = Some 1"
    using reconnect_policy[of ?s 0 "[]" Close] h1 by (simp_all add: fresh_connected)
  let ?u = "run [Connect, Open, Close, TimerFires, Close, TimerFires, Close, TimerFires,
              Close, TimerFires, Close, TimerFires, Close] fresh"
  have u: "reconnectAttempts ?u = 5" "opts ?u = default_options" "timers ?u = []" "sockets ?u = 6"
    by (simp_all add: run_def fresh_def constructor_def default_options_def connect_def
          ws_onopen_def ws_onclose_def timer_fires_def Let_def)
  have h3: "maxReconnectAttempts (opts ?u) \<le> reconnectAttempts ?u \<and> timers ?u = []
       \<and> list_all (\<lambda>ev. ev \<noteq> Open \<and> ev \<noteq> Connect \<and> (\<forall>a p. ev \<noteq> Subscribe a p))
             [TimerFires, Error, Close, Disconnect]"
    by (simp add: u default_options_def)
  have g: "sockets (run [TimerFires, Error, Close, Disconnect] ?u) = 6"
    using reconnect_policy[of ?u 0 "[TimerFires, Error, Close, Disconnect]" Close] h3
    by (simp add: u)
  show ?thesis using a b c d e f g by simp
qed

subsection \<open>The registry invariant\<close>

lemma list_all_update:
  assumes "list_all P xs" and "P (k, v)"
  shows "list_all P (AList.update k v xs)"
  using assms by (induction xs) auto

lemma list_all_delete:
  assumes "list_all P xs"
  shows "list_all P (AList.delete k xs)"
  using assms by (induction xs) auto

lemma list_all_mono:
  assumes "list_all P xs" and "\<And>x. P x \<Longrightarrow> Q x"
  shows "list_all Q xs"
  using assms by (induction xs) auto

lemma keys_confirm: "map fst (confirm mid res xs) = map fst xs"
  by (induction xs) auto

lemma list_all_confirm:
  assumes "list_all P xs"
    and "\<And>a e. P (a, e) \<Longrightarrow> P (a, e\<lparr>pendingId := None, id' := res\<rparr>)"
  shows "list_all P (confirm mid res xs)"
  using assms by (induction xs) auto

lemma registry_ok_subscribe:
  assumes "registry_ok s"
  shows "registry_ok (subscribe a p s)"
proof -
  let ?P = "\<lambda>n (a, e). entry_ok n e"
  have d: "distinct (map fst (subscriptions s))" and l: "list_all (?P (lastMessageId s)) (subscriptions s)"
    using assms by (simp_all add: registry_ok_def)
  have "list_all (?P (lastMessageId s + 1)) (subscriptions s)"
    by (rule list_all_mono[OF l]) (auto simp: entry_ok_def split: option.splits)
  then have "list_all (?P (lastMessageId s + 1))
     (AList.update a \<lparr>params = p, pendingId = Some (lastMessageId s + 1), id' = JNull\<rparr> (subscriptions s))"
    by (rule list_all_update) (simp add: entry_ok_def)
  then show ?thesis
    using d by (simp add: registry_ok_def subscribe_def Let_def distinct_update)
qed

lemma registry_ok_subscribes:
  assumes "registry_ok s"
  shows "registry_ok (fold (\<lambda>(a, x) st. subscribe a (g x) st) xs s)"
  using assms by (induction xs arbitrary: s) (auto simp: registry_ok_subscribe)

lemma registry_ok_confirm:
  assumes "registry_ok s" and "truthy res"
  shows "registry_ok (s\<lparr>subscriptions := confirm mid res (subscriptions s)\<rparr>)"
proof -
  let ?P = "\<lambda>(a, e). entry_ok (lastMessageId s) e"
  have "list_all ?P (subscriptions s)" using assms(1) by (simp add: registry_ok_def)
  then have "list_all ?P (confirm mid res (subscriptions s))"
    by (rule list_all_confirm) (simp add: assms(2) entry_ok_def)
  then show ?thesis
    using assms(1) by (simp add: registry_ok_def keys_confirm)
qed

lemma registry_ok_correlate:
  assumes "registry_ok s" and "correlate m s = Inr s1"
  shows "registry_ok s1"
  using assms registry_ok_confirm
  by (auto simp: correlate_def split: sum.splits if_splits)

lemma registry_ok_cong:
  assumes "subscriptions t = subscriptions s" and "lastMessageId t = lastMessageId s"
  shows "registry_ok t = registry_ok s"
  using assms by (simp add: registry_ok_def)

lemma registry_ok_onmessage:
  assumes "registry_ok s"
  shows "registry_ok (ws_onmessage parsed s)"
proof (cases parsed)
  case (Inl e)
  then show ?thesis
    using assms by (simp add: ws_onmessage_def registry_ok_def)
next
  case (Inr m)
  show ?thesis
  proof (cases "correlate m s")
    case (Inl e)
    then show ?thesis
      using assms Inr by (simp add: ws_onmessage_def registry_ok_def)
  next
    case r: (Inr s1)
    have "registry_ok (dispatch m s1) = registry_ok s1"
      by (rule registry_ok_cong) (simp_all add: dispatch_def forEach_frame)
    then show ?thesis
      using registry_ok_correlate[OF assms r] Inr r by (simp add: ws_onmessage_def)
  qed
qed

lemma registry_ok_unsubscribe:
  assumes "registry_ok s"
  shows "registry_ok (unsubscribe a s)"
proof -
  let ?P = "\<lambda>n (a, e). entry_ok n e"
  have d: "distinct (map fst (subscriptions s))" and l: "list_all (?P (lastMessageId s)) (subscriptions s)"
    using assms by (simp_all add: registry_ok_def)
  have "list_all (?P (lastMessageId s + 1)) (subscriptions s)"
    by (rule list_all_mono[OF l]) (auto simp: entry_ok_def split: option.splits)
  then have "list_all (?P (lastMessageId s + 1)) (AList.delete a (subscriptions s))"
    by (rule list_all_delete)
  then show ?thesis
    using d assms
    by (simp add: unsubscribe_def Let_def registry_ok_def distinct_delete split: option.splits)
qed

lemma registry_ok_constructor: "registry_ok (constructor u interval attempts)"
  by (simp add: registry_ok_def constructor_def)

lemma registry_ok_step:
  assumes "registry_ok s"
  shows "registry_ok (step ev s)"
proof (cases ev)
  case Open
  have "registry_ok (s\<lparr>isConnected := True, reconnectAttempts := 0,
                       log := log s @ [''WebSocket connection established''],
                       waiting := []\<rparr>)"
    using assms by (simp add: registry_ok_def)
  then have "registry_ok (fold (\<lambda>(a, x) st. subscribe a x st) (waiting s)
                (s\<lparr>isConnected := True, reconnectAttempts := 0,
                       log := log s @ [''WebSocket connection established''],
                       waiting := []\<rparr>))"
    by (rule registry_ok_subscribes[where g = "\<lambda>x. x"])
  then show ?thesis
    using Open
    by (simp add: ws_onopen_def Let_def registry_ok_subscribes[where g = entry_val])
next
  case (Message parsed)
  then show ?thesis using assms by (simp add: registry_ok_onmessage)
next
  case (Subscribe a ps)
  have "registry_ok ((connect s)\<lparr>waiting := waiting s @ [(a, ps)]\<rparr>)"
    using assms by (simp add: registry_ok_def connect_def)
  then show ?thesis using Subscribe assms by (simp add: registry_ok_subscribe)
next
  case (Unsubscribe a)
  then show ?thesis using assms by (simp add: registry_ok_unsubscribe)
qed (use assms in \<open>simp_all add: registry_ok_def connect_def ws_onerror_def ws_onclose_def
       Let_def timer_fires_def onMessage_def removeHandler_def remove_by_id_def disconnect_def
       split: list.splits option.splits\<close>)

lemma registry_ok_run:
  assumes "registry_ok s"
  shows "registry_ok (run evs s)"
  using assms by (induction evs arbitrary: s) (simp_all add: run_def registry_ok_step)

subsection \<open>Acknowledgment correlation\<close>

lemma subscriptions_onmessage:
  "subscriptions (ws_onmessage (Inr m) s) =
     (if truthy (field m ''id'') \<and> truthy (field m ''result'')
      then confirm (field m ''id'') (field m ''result'') (subscriptions s)
      else subscriptions s)"
  by (cases m)
     (simp_all add: ws_onmessage_def correlate_def field_def dispatch_def forEach_frame)

lemma confirm_other:
  assumes "map_of xs a = Some e" and "\<not> pending_matches (pendingId e) mid"
  shows "map_of (confirm mid res xs) a = Some e"
  using assms by (induction xs) (auto split: if_splits)

lemma confirm_absent:
  assumes "map_of xs a = None"
  shows "map_of (confirm mid res xs) a = None"
  using assms by (induction xs) (auto split: if_splits)

lemma confirm_first:
  assumes "map_of xs a = Some e" and "pending_matches (pendingId e) mid"
    and "list_all (\<lambda>(b, e'). b \<noteq> a \<longrightarrow> \<not> pending_matches (pendingId e') mid) xs"
  shows "map_of (confirm mid res xs) a = Some (e\<lparr>pendingId := None, id' := res\<rparr>)"
  using assms by (induction xs) (auto split: if_splits)

lemma map_of_update_same: "map_of (AList.update k v xs) k = Some v"
  by (simp add: update_conv')

lemma others_older:
  assumes "list_all (\<lambda>(b, e). entry_ok n e) xs"
  shows "list_all (\<lambda>(b, e'). b \<noteq> a \<longrightarrow> \<not> pending_matches (pendingId e') (JNum (int (n + 1))))
           (AList.update a v xs)"
proof -
  have "list_all (\<lambda>(b, e'). b \<noteq> a \<longrightarrow> \<not> pending_matches (pendingId e') (JNum (int (n + 1)))) xs"
    by (rule list_all_mono[OF assms])
       (auto simp: entry_ok_def pending_matches_def split: option.splits)
  then show ?thesis
    by (rule list_all_update) simp
qed

text \<open>
  Claim C7. On a registry that satisfies the invariant (every reachable one does),
  \<open>subscribe\<close> keeps one entry per address and leaves for the address exactly the
  entry \<open>{params, pendingId: n, id: null}\<close> of the new request \<open>n\<close>, whatever was
  there. After that, a message whose id is not \<open>n\<close> leaves this entry as it is, and
  the acknowledgment of request \<open>n\<close> (with a truthy result) confirms it.
\<close>

theorem subscribe_replaces_entry:
  assumes "registry_ok s"
  shows "registry_ok (subscribe a p s)
    \<and> distinct (map fst (subscriptions (subscribe a p s)))
    \<and> map_of (subscriptions (subscribe a p s)) a =
        Some \<lparr>params = p, pendingId = Some (lastMessageId s + 1), id' = JNull\<rparr>
    \<and> (field m ''id'' \<noteq> JNum (int (lastMessageId s + 1)) \<longrightarrow>
         map_of (subscriptions (ws_onmessage (Inr m) (subscribe a p s))) a =
           Some \<lparr>params = p, pendingId = Some (lastMessageId s + 1), id' = JNull\<rparr>)
    \<and> (truthy r \<longrightarrow>
         map_of (subscriptions
                  (ws_onmessage (Inr (ack (JNum (int (lastMessageId s + 1))) r)) (subscribe a p s))) a =
           Some \<lparr>params = p, pendingId = None, id' = r\<rparr>)"
proof -
  let ?n = "lastMessageId s + 1"
  let ?e = "\<lparr>params = p, pendingId = Some ?n, id' = JNull\<rparr>"
  let ?t = "subscribe a p s"
  have ok: "registry_ok ?t" using assms by (rule registry_ok_subscribe)
  then have d: "distinct (map fst (subscriptions ?t))" by (simp add: registry_ok_def)
  have subs: "subscriptions ?t = AList.update a ?e (subscriptions s)"
    by (simp add: subscribe_def Let_def)
  have e: "map_of (subscriptions ?t) a = Some ?e"
    by (simp add: subs map_of_update_same)
  have other: "map_of (subscriptions (ws_onmessage (Inr m) ?t)) a = Some ?e"
    if "field m ''id'' \<noteq> JNum (int ?n)"
  proof -
    have "\<not> pending_matches (pendingId ?e) (field m ''id'')"
      using that by (simp add: pending_matches_def)
    then show ?thesis
      using e by (simp add: subscriptions_onmessage confirm_other)
  qed
  have acked: "map_of (subscriptions (ws_onmessage (Inr (ack (JNum (int ?n)) r)) ?t)) a
                = Some \<lparr>params = p, pendingId = None, id' = r\<rparr>"
    if "truthy r"
  proof -
    have f: "field (ack (JNum (int ?n)) r) ''id'' = JNum (int ?n)"
      "field (ack (JNum (int ?n)) r) ''result'' = r"
      by (simp_all add: field_def ack_def)
    have "list_all (\<lambda>(b, e). entry_ok (lastMessageId s) e) (subscriptions s)"
      using assms by (simp add: registry_ok_def)
    then have o: "list_all (\<lambda>(b, e'). b \<noteq> a \<longrightarrow> \<not> pending_matches (pendingId e') (JNum (int ?n)))
           (subscriptions ?t)"
      unfolding subs by (rule others_older)
    have "pending_matches (pendingId ?e) (JNum (int ?n))"
      by (simp add: pending_matches_def)
    then have "map_of (confirm (JNum (int ?n)) r (subscriptions ?t)) a
                 = Some (?e\<lparr>pendingId := None, id' := r\<rparr>)"
      using e o by (intro confirm_first) simp_all
    moreover have "subscriptions (ws_onmessage (Inr (ack (JNum (int ?n)) r)) ?t)
                    = confirm (JNum (int ?n)) r (subscriptions ?t)"
      unfolding subscriptions_onmessage f using that by simp
    moreover have "?e\<lparr>pendingId := None, id' := r\<rparr> = \<lparr>params = p, pendingId = None, id' = r\<rparr>"
      by simp
    ultimately show ?thesis by (simp only:)
  qed
  show ?thesis using ok d e other acked by blast
qed

text \<open>
  Claim C10. A message whose \<open>id\<close> or \<open>result\<close> is falsy (an acknowledgment that
  assigns subscription id 0, say) leaves the registry as it was: no pending id is
  cleared, no confirmed id is set, and the poll of every waiting \<open>subscribe\<close> call
  gives what it gave before. The same holds after any number of such messages.
\<close>

theorem falsy_ack_ignored:
  assumes "list_all (\<lambda>m. \<not> (truthy (field m ''id'') \<and> truthy (field m ''result''))) ms"
  shows "subscriptions (run (map (\<lambda>m. Message (Inr m)) ms) s) = subscriptions s
       \<and> checkSubscription a (run (map (\<lambda>m. Message (Inr m)) ms) s) = checkSubscription a s"
proof -
  have "subscriptions (run (map (\<lambda>m. Message (Inr m)) ms) s) = subscriptions s"
    using assms
  proof (induction ms arbitrary: s)
    case Nil
    then show ?case by (simp add: run_def)
  next
    case (Cons m ms)
    have "subscriptions (ws_onmessage (Inr m) s) = subscriptions s"
      using Cons.prems by (auto simp: subscriptions_onmessage)
    moreover have "subscriptions (run (map (\<lambda>m. Message (Inr m)) ms) (ws_onmessage (Inr m) s))
          = subscriptions (ws_onmessage (Inr m) s)"
      using Cons.prems by (intro Cons.IH) simp
    ultimately show ?case by (simp add: run_def)
  qed
  then show ?thesis by (simp add: checkSubscription_def)
qed

text \<open>
  Claim C9. On a registry that satisfies the invariant, \<open>unsubscribe\<close> changes nothing
  (no frame, no id consumed, registry as it was) when the manager is not connected,
  when the address has no entry, and when its entry has no confirmed id; otherwise it
  sends exactly one frame, the request
  \<open>{jsonrpc: "2.0", id: n, method: "accountUnsubscribe", params: [confirmed id]}\<close>
  with the next request id \<open>n\<close>, and removes the entry at once.
\<close>

theorem unsubscribe_behaviour:
  assumes "registry_ok s"
  shows "(\<not> isConnected s \<or> map_of (subscriptions s) a = None
          \<or> (\<exists>e. map_of (subscriptions s) a = Some e \<and> id' e = JNull)
          \<longrightarrow> unsubscribe a s = s)
       \<and> (isConnected s \<and> map_of (subscriptions s) a = Some e \<and> id' e \<noteq> JNull \<longrightarrow>
            sent (unsubscribe a s) =
              sent s @ [JObj [(''jsonrpc'', JStr ''2.0''),
                              (''id'', JNum (int (lastMessageId s + 1))),
                              (''method'', JStr ''accountUnsubscribe''),
                              (''params'', JArr [id' e])]]
            \<and> subscriptions (unsubscribe a s) = AList.delete a (subscriptions s)
            \<and> map_of (subscriptions (unsubscribe a s)) a = None
            \<and> lastMessageId (unsubscribe a s) = lastMessageId s + 1)"
proof (intro conjI impI)
  assume "\<not> isConnected s \<or> map_of (subscriptions s) a = None
          \<or> (\<exists>e. map_of (subscriptions s) a = Some e \<and> id' e = JNull)"
  then show "unsubscribe a s = s"
    by (auto simp: unsubscribe_def)
next
  assume a: "isConnected s \<and> map_of (subscriptions s) a = Some e \<and> id' e \<noteq> JNull"
  then have "(a, e) \<in> set (subscriptions s)" by (simp add: map_of_SomeD)
  moreover have "list_all (\<lambda>(b, e). entry_ok (lastMessageId s) e) (subscriptions s)"
    using assms by (simp add: registry_ok_def)
  ultimately have "entry_ok (lastMessageId s) e"
    by (auto simp: list_all_iff)
  then have t: "truthy (id' e)" using a by (simp add: entry_ok_def)
  show "sent (unsubscribe a s) =
              sent s @ [JObj [(''jsonrpc'', JStr ''2.0''),
                              (''id'', JNum (int (lastMessageId s + 1))),
                              (''method'', JStr ''accountUnsubscribe''),
                              (''params'', JArr [id' e])]]"
    and "subscriptions (unsubscribe a s) = AList.delete a (subscriptions s)"
    and "lastMessageId (unsubscribe a s) = lastMessageId s + 1"
    using a t by (simp_all add: unsubscribe_def unsubscribe_msg_def Let_def)
  then show "map_of (subscriptions (unsubscribe a s)) a = None"
    by (simp add: delete_conv')
qed

subsection \<open>Concrete runs\<close>

lemma fresh_subscribed:
  "run [Connect, Open, Subscribe ''A'' default_params] fresh =
     fresh\<lparr>ws := Some 0, isConnected := True, connectionPromise := True, sockets := 1,
           log := [''WebSocket connection established''],
           lastMessageId := 1,
           subscriptions := [(''A'', \<lparr>params = default_params, pendingId = Some 1, id' = JNull\<rparr>)],
           sent := [subscribe_msg 1 ''A'' default_params]\<rparr>"
  by (simp add: run_def fresh_def constructor_def connect_def ws_onopen_def Let_def subscribe_def)

lemma fresh_confirmed:
  "run [Connect, Open, Subscribe ''A'' default_params, Message (Inr (ack (JNum 1) (JNum 777)))] fresh =
     fresh\<lparr>ws := Some 0, isConnected := True, connectionPromise := True, sockets := 1,
           log := [''WebSocket connection established''],
           lastMessageId := 1,
           subscriptions := [(''A'', \<lparr>params = default_params, pendingId = None, id' = JNum 777\<rparr>)],
           sent := [subscribe_msg 1 ''A'' default_params]\<rparr>"
  by (simp add: run_def fresh_def constructor_def connect_def ws_onopen_def Let_def subscribe_def
       ws_onmessage_def correlate_def ack_def pending_matches_def dispatch_def
       forEach_handlers.simps)

lemma registry_ok_fresh: "registry_ok (run evs fresh)"
  by (simp add: registry_ok_run fresh_def registry_ok_constructor)

theorem subscribe_replaces_entry_witness:
  "map_of (subscriptions (subscribe ''A'' (JObj [(''encoding'', JStr ''base64'')])
            (run [Connect, Open, Subscribe ''A'' default_params] fresh))) ''A''
     = Some \<lparr>params = JObj [(''encoding'', JStr ''base64'')], pendingId = Some 2, id' = JNull\<rparr>
   \<and> map_of (subscriptions (ws_onmessage (Inr (ack (JNum 1) (JNum 777)))
          (subscribe ''A'' (JObj [(''encoding'', JStr ''base64'')])
            (run [Connect, Open, Subscribe ''A'' default_params] fresh)))) ''A''
     = Some \<lparr>params = JObj [(''encoding'', JStr ''base64'')], pendingId = Some 2, id' = JNull\<rparr>
   \<and> map_of (subscriptions (ws_onmessage (Inr (ack (JNum 2) (JNum 888)))
          (subscribe ''A'' (JObj [(''encoding'', JStr ''base64'')])
            (run [Connect, Open, Subscribe ''A'' default_params] fresh)))) ''A''
     = Some \<lparr>params = JObj [(''encoding'', JStr ''base64'')], pendingId = None, id' = JNum 888\<rparr>"
proof -
  let ?s = "run [Connect, Open, Subscribe ''A'' default_params] fresh"
  have ok: "registry_ok ?s" by (rule registry_ok_fresh)
  have n: "lastMessageId ?s = 1" by (simp add: fresh_subscribed)
  have f: "field (ack (JNum 1) (JNum 777)) ''id'' \<noteq> JNum (int (lastMessageId ?s + 1))"
    by (simp add: n field_def ack_def)
  have t: "truthy (JNum 888)" by simp
  show ?thesis
    using subscribe_replaces_entry[OF ok, of "''A''" "JObj [(''encoding'', JStr ''base64'')]"
            "ack (JNum 1) (JNum 777)" "JNum 888"] f t
    by (simp add: n)
qed

theorem falsy_ack_ignored_witness:
  "subscriptions (run [Message (Inr (ack (JNum 1) (JNum 0)))]
      (run [Connect, Open, Subscribe ''A'' default_params] fresh))
     = [(''A'', \<lparr>params = default_params, pendingId = Some 1, id' = JNull\<rparr>)]
   \<and> checkSubscription ''A'' (run [Message (Inr (ack (JNum 1) (JNum 0)))]
      (run [Connect, Open, Subscribe ''A'' default_params] fresh)) = None"
proof -
  let ?s = "run [Connect, Open, Subscribe ''A'' default_params] fresh"
  have h: "list_all (\<lambda>m. \<not> (truthy (field m ''id'') \<and> truthy (field m ''result'')))
             [ack (JNum 1) (JNum 0)]"
    by (simp add: field_def ack_def)
  have c: "checkSubscription ''A'' ?s = None"
    by (simp add: fresh_subscribed checkSubscription_def)
  have s: "subscriptions ?s = [(''A'', \<lparr>params = default_params, pendingId = Some 1, id' = JNull\<rparr>)]"
    by (simp add: fresh_subscribed)
  show ?thesis
    using falsy_ack_ignored[OF h, of ?s "''A''"] by (simp add: c s)
qed

theorem unsubscribe_behaviour_witness:
  "unsubscribe ''A'' (run [Connect, Open, Subscribe ''A'' default_params] fresh)
     = run [Connect, Open, Subscribe ''A'' default_params] fresh
   \<and> sent (unsubscribe ''A''
        (run [Connect, Open, Subscribe ''A'' default_params,
              Message (Inr (ack (JNum 1) (JNum 777)))] fresh))
     = [subscribe_msg 1 ''A'' default_params,
        JObj [(''jsonrpc'', JStr ''2.0''), (''id'', JNum 2),
              (''method'', JStr ''accountUnsubscribe''), (''params'', JArr [JNum 777])]]
   \<and> subscriptions (unsubscribe ''A''
        (run [Connect, Open, Subscribe ''A'' default_params,
              Message (Inr (ack (JNum 1) (JNum 777)))] fresh)) = []"
proof -
  let ?s = "run [Connect, Open, Subscribe ''A'' default_params] fresh"
  let ?t = "run [Connect, Open, Subscribe ''A'' default_params,
              Message (Inr (ack (JNum 1) (JNum 777)))] fresh"
  let ?e = "\<lparr>params = default_params, pendingId = None, id' = JNum 777\<rparr>"
  have "\<exists>e. map_of (subscriptions ?s) ''A'' = Some e \<and> id' e = JNull"
    by (simp add: fresh_subscribed)
  then have a: "unsubscribe ''A'' ?s = ?s"
    using unsubscribe_behaviour[OF registry_ok_fresh, of "[Connect, Open, Subscribe ''A'' default_params]" "''A''"]
    by blast
  have h: "isConnected ?t \<and> map_of (subscriptions ?t) ''A'' = Some ?e \<and> id' ?e \<noteq> JNull"
    by (simp add: fresh_confirmed)
  have b: "sent (unsubscribe ''A'' ?t) =
             sent ?t @ [JObj [(''jsonrpc'', JStr ''2.0''),
                              (''id'', JNum (int (lastMessageId ?t + 1))),
                              (''method'', JStr ''accountUnsubscribe''),
                              (''params'', JArr [id' ?e])]]"
      "subscriptions (unsubscribe ''A'' ?t) = AList.delete ''A'' (subscriptions ?t)"
    using unsubscribe_behaviour[OF registry_ok_fresh,
            of "[Connect, Open, Subscribe ''A'' default_params, Message (Inr (ack (JNum 1) (JNum 777)))]"
               "''A''" ?e] h
    by blast+
  show ?thesis
    using a b by (simp add: fresh_confirmed numeral_2_eq_2)
qed

subsection \<open>Dispatch to the handlers\<close>








lemma dispatch_one:
  assumes "messageHandlers s = [h1]"
  shows "dispatch m s = notify m h1 s"
proof -
  have a: "forEach_handlers m 0 1 s = forEach_handlers m 1 1 (notify m h1 s)"
    using assms by (subst forEach_handlers.simps) simp
  have c: "forEach_handlers m 1 1 t = t" for t
    by (subst forEach_handlers.simps) simp
  show ?thesis
    using assms a c by (simp add: dispatch_def)
qed


subsection \<open>Teardown\<close>






subsection \<open>Re-subscription on reconnect\<close>

lemma subscribes_sent:
  "sent (fold (\<lambda>(a, x) st. subscribe a (g x) st) xs s) =
     sent s @ map (\<lambda>(n, (a, x)). subscribe_msg n a (g x))
                  (enumerate (lastMessageId s + 1) xs)
   \<and> lastMessageId (fold (\<lambda>(a, x) st. subscribe a (g x) st) xs s)
       = lastMessageId s + length xs"
proof (induction xs arbitrary: s)
  case Nil
  then show ?case by simp
next
  case (Cons x xs)
  obtain a e where x: "x = (a, e)" by (cases x)
  let ?t = "subscribe a (g e) s"
  have t: "sent ?t = sent s @ [subscribe_msg (lastMessageId s + 1) a (g e)]"
    "lastMessageId ?t = lastMessageId s + 1"
    by (simp_all add: subscribe_def Let_def)
  show ?case
    using Cons.IH[of ?t] by (simp add: x t)
qed

text \<open>
  The frames of a reconnection: first the requests of the calls that were waiting for
  the connection, then one request for each address of the registry as it was when the
  socket opened, in registry order, each carrying the entry object.
\<close>

lemma ws_onopen_sent:
  "sent (ws_onopen s) =
     sent s
     @ map (\<lambda>(n, (a, p)). subscribe_msg n a p) (enumerate (lastMessageId s + 1) (waiting s))
     @ map (\<lambda>(n, (a, e)). subscribe_msg n a (entry_val e))
           (enumerate (lastMessageId s + 1 + length (waiting s)) (subscriptions s))"
  using subscribes_sent[where g = "\<lambda>x. x"] subscribes_sent[where g = entry_val]
  by (simp add: ws_onopen_def Let_def add.commute add.left_commute)

lemma waiting_call_resumes_first:
  "sent (run [Connect, Open, Subscribe ''A'' default_params,
              Message (Inr (ack (JNum 1) (JNum 777))), Close,
              Subscribe ''B'' default_params, Open] fresh)
     = [subscribe_msg 1 ''A'' default_params,
        subscribe_msg 2 ''B'' default_params,
        subscribe_msg 3 ''A''
          (JObj [(''params'', default_params), (''pendingId'', JNull), (''id'', JNum 777)])]"
proof -
  let ?evs = "[Connect, Open, Subscribe ''A'' default_params,
              Message (Inr (ack (JNum 1) (JNum 777)))]"
  have split: "run (?evs @ [Close, Subscribe ''B'' default_params, Open]) fresh
      = run [Close, Subscribe ''B'' default_params, Open] (run ?evs fresh)"
    by (simp add: run_def)
  have "sent (run [Close, Subscribe ''B'' default_params, Open] (run ?evs fresh)) =
      [subscribe_msg 1 ''A'' default_params,
        subscribe_msg 2 ''B'' default_params,
        subscribe_msg 3 ''A''
          (JObj [(''params'', default_params), (''pendingId'', JNull), (''id'', JNum 777)])]"
    unfolding fresh_confirmed
    by (simp add: run_def fresh_def constructor_def default_options_def connect_def ws_onopen_def
          Let_def subscribe_def ws_onclose_def entry_val_def numeral_2_eq_2 numeral_3_eq_3)
  then show ?thesis using split by simp
qed

text \<open>
  Claim C1 is what the resubscribe loop is written for, and the code misses it. After
  \<open>subscribe(A, p)\<close> with the default parameters, its acknowledgment \<open>{id: 1,
  result: 777}\<close>, a closure and the reconnection, the manager issues exactly one new
  \<open>accountSubscribe\<close> request for \<open>A\<close>, but its parameters are the whole registry
  entry \<open>{params: p, pendingId: null, id: 777}\<close>, not \<open>p\<close>; and that object is
  what the registry then stores as the parameters of \<open>A\<close>.
\<close>

theorem resubscribe_sends_entry_object:
  "sent (run [Connect, Open, Subscribe ''A'' default_params,
              Message (Inr (ack (JNum 1) (JNum 777))), Close, TimerFires, Open] fresh)
     = [subscribe_msg 1 ''A'' default_params,
        subscribe_msg 2 ''A''
          (JObj [(''params'', default_params), (''pendingId'', JNull), (''id'', JNum 777)])]
   \<and> map_of (subscriptions (run [Connect, Open, Subscribe ''A'' default_params,
              Message (Inr (ack (JNum 1) (JNum 777))), Close, TimerFires, Open] fresh)) ''A''
     = Some \<lparr>params = JObj [(''params'', default_params), (''pendingId'', JNull), (''id'', JNum 777)],
             pendingId = Some 2, id' = JNull\<rparr>
   \<and> JObj [(''params'', default_params), (''pendingId'', JNull), (''id'', JNum 777)] \<noteq> default_params"
proof -
  let ?evs = "[Connect, Open, Subscribe ''A'' default_params,
              Message (Inr (ack (JNum 1) (JNum 777)))]"
  have split: "run (?evs @ [Close, TimerFires, Open]) fresh = run [Close, TimerFires, Open] (run ?evs fresh)"
    by (simp add: run_def)
  have "run [Close, TimerFires, Open] (run ?evs fresh) =
     fresh\<lparr>ws := Some 1, isConnected := True, connectionPromise := True, sockets := 2,
           log := [''WebSocket connection established'', ''WebSocket connection closed'',
                   ''Reconnecting...'', ''WebSocket connection established''],
           lastMessageId := 2,
           subscriptions := [(''A'', \<lparr>params = JObj [(''params'', default_params),
                                   (''pendingId'', JNull), (''id'', JNum 777)],
                                   pendingId = Some 2, id' = JNull\<rparr>)],
           sent := [subscribe_msg 1 ''A'' default_params,
                    subscribe_msg 2 ''A'' (JObj [(''params'', default_params),
                                   (''pendingId'', JNull), (''id'', JNum 777)])],
           reconnectAttempts := 0, timers := []\<rparr>"
    unfolding fresh_confirmed
    by (simp add: run_def fresh_def constructor_def default_options_def connect_def ws_onopen_def
          Let_def subscribe_def ws_onclose_def timer_fires_def entry_val_def numeral_2_eq_2)
  then show ?thesis
    using split by (simp add: default_params_def)
qed

section \<open>Properties of the throttle\<close>

lemma burst_state:
  "fold arrive [(0, r0), (10, r1), (20, r2), (60, r3)] (mounted 0) =
     \<lparr>lastUpdateTime = 50, pendingUpdate = Some 4, timeouts = [(4, 100, r3)], nextTimer = 5,
      priceData = Some r2, priceHistory = [r2], updateCounter = 1, updateCount = 1,
      deliveries = [(50, r2)]\<rparr>"
  by (simp add: arrive_def mounted_def handlePriceUpdate_def advance_def updatePrice_def
        clearTimeout_def Let_def UPDATE_LIMIT_MS_def MAX_HISTORY_POINTS_def)

text \<open>
  Claim C3, as the code has it. With throttle interval 50 and the last-delivery time at
  0, readings arriving at 0, 10, 20 and 60 produce exactly two deliveries: one at 50
  that carries the reading of time 20, and one at 100 that carries the reading of
  time 60 (it arrives 10 time units after the delivery at 50, so it is deferred by the
  remaining 40). Up to time 60 there is only the first.
\<close>

theorem throttle_burst:
  "deliveries (simulate [(0, r0), (10, r1), (20, r2), (60, r3)] 60 (mounted 0)) = [(50, r2)]
   \<and> (100 \<le> t_end \<longrightarrow>
        deliveries (simulate [(0, r0), (10, r1), (20, r2), (60, r3)] t_end (mounted 0))
          = [(50, r2), (100, r3)])"
  unfolding simulate_def burst_state
  by (simp add: advance_def updatePrice_def Let_def MAX_HISTORY_POINTS_def)

theorem throttle_burst_witness:
  "deliveries (simulate [(0, ''a''), (10, ''b''), (20, ''c''), (60, ''d'')] 100 (mounted 0))
     = [(50, ''c''), (100, ''d'')]"
  using throttle_burst[of "''a''" "''b''" "''c''" "''d''" 100] by simp

text \<open>
  Claim C3 as stated has the reading of time 60 delivered at time 60. At time 60 the
  only delivery is the one of time 50, and the run ends with deliveries at 50 and 100.
\<close>

theorem throttle_burst_counterexample:
  "deliveries (simulate [(0, ''a''), (10, ''b''), (20, ''c''), (60, ''d'')] 60 (mounted 0))
     = [(50, ''c'')]
   \<and> deliveries (simulate [(0, ''a''), (10, ''b''), (20, ''c''), (60, ''d'')] 1000 (mounted 0))
     = [(50, ''c''), (100, ''d'')]
   \<and> [(50, ''c''), (100, ''d'')] \<noteq> [(50 :: int, ''c''), (60, ''d'')]"
  unfolding simulate_def burst_state
  by (simp add: advance_def updatePrice_def Let_def MAX_HISTORY_POINTS_def)


end
